theory Spec2Isabelle
  imports Main
begin

section \<open>The tree outliner of the document (class Tree)\<close>

text \<open>
  The class \<open>Tree\<close> projects the document's node graph onto a tree of HTML elements,
  patches that projection from batches of change records, and turns pointer and drag
  events into selection calls and transactional moves.

  Nodes are compared by reference in the source; here a node is its identity, a natural
  number. The node graph itself (classes \<open>INode\<close>, \<open>INodeLinkedList\<close>) is consumed through
  its interface only: the links \<open>parent\<close>, \<open>firstChild\<close>, \<open>nextSibling\<close>, the two
  predicates \<open>INode.isLinkedListNode\<close> and \<open>INode.isModelNode\<close>, and
  \<open>INode.getNodesBetween\<close>. They are the fields of the record \<open>document\<close>, so every
  statement below holds for whatever graph stands behind them.

  The subscriptions to the bus, the listeners of an item and \<open>dispose\<close> take no part in
  the statements and are left out. A call of the selection manager is an effect of the
  handler that makes it; the selection-change event it leads to is a step of its own
  (\<open>handleSelectionChanged\<close>).
\<close>

type_synonym inode = nat

record document =
  rootNode :: inode
  parent :: "inode \<Rightarrow> inode option"
  firstChild :: "inode \<Rightarrow> inode option"
  nextSibling :: "inode \<Rightarrow> inode option"
  isLinkedListNode :: "inode \<Rightarrow> bool"
  isModelNode :: "inode \<Rightarrow> bool"
  getNodesBetween :: "inode \<Rightarrow> inode \<Rightarrow> inode list"

text \<open>A change record (\<open>NodeRecord\<close>): the node, and its old and new place.\<close>

record nodeRecord =
  node :: inode
  oldParent :: "inode option"
  oldPrevious :: "inode option"
  newParent :: "inode option"
  newPrevious :: "inode option"

text \<open>
  A \<open>TreeItem\<close> is either a \<open>TreeGroup\<close> (for a linked-list node; it carries the flag
  \<open>isExpanded\<close>) or a \<open>TreeModel\<close> (for a model node). Items are objects with identity:
  the tree keeps them in a heap, the list \<open>items\<close>, and refers to an item by its index
  there. A new item takes the next free index.
\<close>

datatype treeItem = TreeGroup inode bool | TreeModel inode

text \<open>An element that can hold tree items: the \<open>Tree\<close> control itself, or an item.\<close>

datatype element = TreePanel | Item nat

datatype style = selected | current

text \<open>
  A call of \<open>INodeLinkedList.move\<close>: the receiver (the moved node's parent), the moved
  node, the new parent and the sibling the node is placed relative to.
\<close>

datatype moveCall = Move inode inode "inode option" "inode option"

text \<open>
  What the tree does to its surroundings, in the order it does it: calls of the selection
  manager, style changes and scrolling of an item, calls on the event, and a transaction
  (\<open>Transaction.excute\<close>) with the moves its body made.
\<close>

datatype effect =
    Select "inode list" bool
  | AddSelectedStyle nat style
  | RemoveSelectedStyle nat style
  | ScrollIntoView nat
  | StopPropagation
  | PreventDefault
  | SetDropEffect string
  | Excute string "moveCall list"

text \<open>
  The state of a \<open>Tree\<close>: its four private fields, the heap of items with the children
  of every element in display order, the document's \<open>currentNode\<close> (the tree writes it),
  and the effects so far. \<open>selectedNodes\<close> is a JavaScript \<open>Set\<close>: a list without
  repetition, in insertion order.
\<close>

record tree =
  nodeMap :: "inode \<Rightarrow> nat option"
  lastClicked :: "inode option"
  selectedNodes :: "inode list"
  dragging :: "inode list option"
  items :: "treeItem list"
  childItems :: "element \<Rightarrow> nat list"
  currentNode :: "inode option"
  log :: "effect list"

datatype error = UnknownNode | MoveFailed

text \<open>
  A pointer or drag event, as far as the handlers read it: the node of the tree item the
  event's target lies in (\<open>getTreeItem(event.target)?.node\<close>, absent when the target is in
  no tree item) and the modifier keys. \<open>metaKey\<close> is the Cmd key of a \<open>MouseEvent\<close>.
\<close>

record pointerEvent =
  targetNode :: "inode option"
  shiftKey :: bool
  ctrlKey :: bool
  metaKey :: bool

definition emptyTree :: tree where
  "emptyTree = \<lparr> nodeMap = (\<lambda>_. None), lastClicked = None, selectedNodes = [],
     dragging = None, items = [], childItems = (\<lambda>_. []), currentNode = None, log = [] \<rparr>"

subsection \<open>The elements\<close>

text \<open>
  The classes \<open>TreeItem\<close> and \<open>TreeGroup\<close> are not among the sources. What their methods
  \<open>appendChild\<close>, \<open>removeChild\<close> and \<open>insertAfter\<close> do to the children of an element is
  taken from the specification's words, and none of them fails.
\<close>

text \<open>
  Modelled from the spec: what inserting an element does to the place it had (the DOM's
  \<open>appendChild\<close> and \<open>insertBefore\<close> behind the methods that are missing). An element has
  one place: inserted somewhere, it leaves the children of whatever element held it.
\<close>

definition detach :: "tree \<Rightarrow> nat \<Rightarrow> tree" where
  "detach t el = t\<lparr> childItems := (\<lambda>p. removeAll el (childItems t p)) \<rparr>"

text \<open>
  Modelled from the spec: \<open>appendChild\<close> of the control and of a tree item, which is
  missing. The item becomes the last child ("container nodes append children under
  themselves").
\<close>

definition appendChild :: "tree \<Rightarrow> element \<Rightarrow> nat \<Rightarrow> tree" where
  "appendChild t par el =
     (let t1 = detach t el
      in t1\<lparr> childItems := (childItems t1)(par := childItems t1 par @ [el]) \<rparr>)"

text \<open>
  Modelled from the spec: \<open>removeChild\<close> of a tree item, which is missing. It detaches
  "the node's visual element from the old parent's visual element"; an element that is
  not a child there leaves everything as it is.
\<close>

definition removeChild :: "tree \<Rightarrow> element \<Rightarrow> nat \<Rightarrow> tree" where
  "removeChild t par el =
     t\<lparr> childItems := (childItems t)(par := removeAll el (childItems t par)) \<rparr>"

text \<open>
  Modelled from the spec: \<open>TreeGroup.insertAfter(item, child)\<close>, which is missing. "If a
  new-previous-sibling is given, insert immediately after that sibling's visual element,
  else insert at the end of the parent's children." A sibling that is not among the
  group's children counts as none given.
\<close>

fun insertBehind :: "nat \<Rightarrow> nat \<Rightarrow> nat list \<Rightarrow> nat list" where
  "insertBehind pre el [] = [el]"
| "insertBehind pre el (c # cs) =
     (if c = pre then c # el # cs else c # insertBehind pre el cs)"

definition insertAfter :: "tree \<Rightarrow> nat \<Rightarrow> nat \<Rightarrow> nat option \<Rightarrow> tree" where
  "insertAfter t grp el pre =
     (let t1 = detach t el;
          cs = childItems t1 (Item grp)
      in t1\<lparr> childItems := (childItems t1)(Item grp :=
           (case pre of
              None \<Rightarrow> cs @ [el]
            | Some q \<Rightarrow> insertBehind q el cs)) \<rparr>)"

text \<open>\<open>parent instanceof TreeGroup\<close>, for an item of the heap.\<close>

definition isTreeGroup :: "tree \<Rightarrow> nat \<Rightarrow> bool" where
  "isTreeGroup t el =
     (if el < length (items t)
      then (case items t ! el of TreeGroup _ _ \<Rightarrow> True | TreeModel _ \<Rightarrow> False)
      else False)"

subsection \<open>Building the view\<close>

text \<open>
  \<open>createHTMLElement\<close>: a group for a linked-list node, a model item for a model node,
  and the exception "unknown node" for any other. The new item is returned by its index
  in the heap. A new group is shown expanded (the constructor of \<open>TreeGroup\<close> is not among
  the sources; no statement below depends on the initial flag).
\<close>

definition createHTMLElement :: "document \<Rightarrow> tree \<Rightarrow> inode \<Rightarrow> error + (nat \<times> tree)" where
  "createHTMLElement d t n =
     (if isLinkedListNode d n
      then Inr (length (items t), t\<lparr> items := items t @ [TreeGroup n True] \<rparr>)
      else if isModelNode d n
      then Inr (length (items t), t\<lparr> items := items t @ [TreeModel n] \<rparr>)
      else Inl UnknownNode)"

text \<open>
  \<open>addAllNodes\<close>, the walk of the constructor. It recurses along \<open>firstChild\<close> and
  \<open>nextSibling\<close>, both only when the node is a linked-list node, as in the source. On
  a graph with a cycle the recursion does not end: the result \<open>None\<close>.
\<close>

partial_function (option) addAllNodes ::
  "document \<Rightarrow> tree \<Rightarrow> element \<Rightarrow> inode \<Rightarrow> (error + tree) option" where
  "addAllNodes d t par n =
     (case createHTMLElement d t n of
        Inl e \<Rightarrow> Some (Inl e)
      | Inr (el, t1) \<Rightarrow>
          (let t2 = t1\<lparr> nodeMap := (nodeMap t1)(n := Some el) \<rparr>;
               t3 = appendChild t2 par el
           in if isLinkedListNode d n
              then Option.bind
                     (case firstChild d n of
                        None \<Rightarrow> Some (Inr t3)
                      | Some c \<Rightarrow> addAllNodes d t3 (Item el) c)
                     (\<lambda>r. case r of
                        Inl e \<Rightarrow> Some (Inl e)
                      | Inr t4 \<Rightarrow>
                          (case nextSibling d n of
                             None \<Rightarrow> Some (Inr t4)
                           | Some s \<Rightarrow> addAllNodes d t4 par s))
              else Some (Inr t3)))"

text \<open>The constructor: the walk from the document's root, under the control itself.\<close>

definition newTree :: "document \<Rightarrow> (error + tree) option" where
  "newTree d = addAllNodes d emptyTree TreePanel (rootNode d)"

subsection \<open>Reconciliation of a batch of change records\<close>

text \<open>\<open>ensureHasHTML\<close>: an item for every record's node that has none yet.\<close>

fun ensureHasHTML :: "document \<Rightarrow> tree \<Rightarrow> nodeRecord list \<Rightarrow> error + tree" where
  "ensureHasHTML d t [] = Inr t"
| "ensureHasHTML d t (r # rs) =
     (if nodeMap t (node r) = None
      then (case createHTMLElement d t (node r) of
              Inl e \<Rightarrow> Inl e
            | Inr (el, t1) \<Rightarrow>
                ensureHasHTML d (t1\<lparr> nodeMap := (nodeMap t1)(node r := Some el) \<rparr>) rs)
      else ensureHasHTML d t rs)"

text \<open>
  The loop of \<open>handleNodeLinkedChanged\<close> over the records. A record whose node has no
  item is passed over (\<open>continue\<close>); the old parent's item, the new parent's item and the
  new previous sibling's item are each looked up, and each lookup that finds nothing
  skips its step.
\<close>

definition unlinkOld :: "tree \<Rightarrow> nodeRecord \<Rightarrow> nat \<Rightarrow> tree" where
  "unlinkOld t r ele =
     (case oldParent r of
        None \<Rightarrow> t
      | Some op \<Rightarrow>
          (case nodeMap t op of
             None \<Rightarrow> t
           | Some pe \<Rightarrow> removeChild t (Item pe) ele))"

definition linkNew :: "tree \<Rightarrow> nodeRecord \<Rightarrow> nat \<Rightarrow> tree" where
  "linkNew t r ele =
     (case newParent r of
        None \<Rightarrow> t
      | Some np \<Rightarrow>
          (case nodeMap t np of
             None \<Rightarrow> t
           | Some pe \<Rightarrow>
               if isTreeGroup t pe
               then insertAfter t pe ele
                      (case newPrevious r of None \<Rightarrow> None | Some q \<Rightarrow> nodeMap t q)
               else t))"

fun applyRecords :: "tree \<Rightarrow> nodeRecord list \<Rightarrow> tree" where
  "applyRecords t [] = t"
| "applyRecords t (r # rs) =
     (case nodeMap t (node r) of
        None \<Rightarrow> applyRecords t rs
      | Some ele \<Rightarrow> applyRecords (linkNew (unlinkOld t r ele) r ele) rs)"

definition handleNodeLinkedChanged :: "document \<Rightarrow> tree \<Rightarrow> nodeRecord list \<Rightarrow> error + tree" where
  "handleNodeLinkedChanged d t records =
     (case ensureHasHTML d t records of
        Inl e \<Rightarrow> Inl e
      | Inr t1 \<Rightarrow> Inr (applyRecords t1 records))"

subsection \<open>Selection changes\<close>

text \<open>
  \<open>setLastClickItem\<close>: the style \<open>current\<close> moves from the old anchor's item to the new
  one's, and the document's current node becomes the clicked node if it is a
  linked-list node, its parent otherwise.
\<close>

definition styleOf :: "tree \<Rightarrow> inode \<Rightarrow> (nat \<Rightarrow> effect) \<Rightarrow> effect list" where
  "styleOf t n f = (case nodeMap t n of None \<Rightarrow> [] | Some el \<Rightarrow> [f el])"

definition setLastClickItem :: "document \<Rightarrow> tree \<Rightarrow> inode option \<Rightarrow> tree" where
  "setLastClickItem d t item =
     (let t1 = (case lastClicked t of
                  None \<Rightarrow> t
                | Some l \<Rightarrow>
                    t\<lparr> log := log t @ styleOf t l (\<lambda>el. RemoveSelectedStyle el current) \<rparr>);
          t2 = t1\<lparr> lastClicked := item \<rparr>
      in case item of
           None \<Rightarrow> t2
         | Some n \<Rightarrow>
             t2\<lparr> log := log t2 @ styleOf t2 n (\<lambda>el. AddSelectedStyle el current),
                 currentNode := (if isLinkedListNode d n then Some n else parent d n) \<rparr>)"

text \<open>
  The ancestor walk of \<open>scrollToNode\<close>: \<open>while (parent) { ... }\<close>. The variable moves to
  the next ancestor inside the test that the ancestor has an item; without an item the
  next round starts from the same ancestor. Not returning is the result \<open>None\<close>.
\<close>

definition expand :: "tree \<Rightarrow> nat \<Rightarrow> tree" where
  "expand t g =
     (if g < length (items t)
      then (case items t ! g of
              TreeGroup n e \<Rightarrow>
                if e = False then t\<lparr> items := (items t)[g := TreeGroup n True] \<rparr> else t
            | TreeModel _ \<Rightarrow> t)
      else t)"

partial_function (option) expandAncestors ::
  "document \<Rightarrow> tree \<Rightarrow> inode option \<Rightarrow> tree option" where
  "expandAncestors d t par =
     (case par of
        None \<Rightarrow> Some t
      | Some p \<Rightarrow>
          (case nodeMap t p of
             None \<Rightarrow> expandAncestors d t (Some p)
           | Some g \<Rightarrow> expandAncestors d (expand t g) (parent d p)))"

definition scrollToNode :: "document \<Rightarrow> tree \<Rightarrow> inode list \<Rightarrow> tree option" where
  "scrollToNode d t sel =
     (case sel of
        [] \<Rightarrow> Some t
      | n # _ \<Rightarrow>
          Option.bind (expandAncestors d t (parent d n))
            (\<lambda>t1. Some (t1\<lparr> log := log t1 @ styleOf t1 n ScrollIntoView \<rparr>)))"

fun unselectEach :: "tree \<Rightarrow> inode list \<Rightarrow> tree" where
  "unselectEach t [] = t"
| "unselectEach t (x # xs) =
     unselectEach (t\<lparr> log := log t @ styleOf t x (\<lambda>el. RemoveSelectedStyle el selected),
                 selectedNodes := removeAll x (selectedNodes t) \<rparr>) xs"

fun selectEach :: "tree \<Rightarrow> inode list \<Rightarrow> tree" where
  "selectEach t [] = t"
| "selectEach t (x # xs) =
     selectEach (t\<lparr> selectedNodes :=
                   (if x \<in> set (selectedNodes t) then selectedNodes t
                    else selectedNodes t @ [x]),
               log := log t @ styleOf t x (\<lambda>el. AddSelectedStyle el selected) \<rparr>) xs"

definition handleSelectionChanged ::
  "document \<Rightarrow> tree \<Rightarrow> inode list \<Rightarrow> inode list \<Rightarrow> tree option" where
  "handleSelectionChanged d t sel unsel =
     scrollToNode d (selectEach (setLastClickItem d (unselectEach t unsel) None) sel) sel"

subsection \<open>Clicks\<close>

definition onClick :: "document \<Rightarrow> tree \<Rightarrow> pointerEvent \<Rightarrow> tree" where
  "onClick d t ev =
     (case targetNode ev of
        None \<Rightarrow> t
      | Some item \<Rightarrow>
          (let t1 = t\<lparr> log := log t @ [StopPropagation] \<rparr>;
               t2 = (if shiftKey ev
                     then (case lastClicked t1 of
                             None \<Rightarrow> t1
                           | Some l \<Rightarrow>
                               t1\<lparr> log := log t1 @ [Select (getNodesBetween d l item) False] \<rparr>)
                     else t1\<lparr> log := log t1 @ [Select [item] (ctrlKey ev)] \<rparr>)
           in setLastClickItem d t2 (Some item)))"

subsection \<open>Drag and drop\<close>

text \<open>\<open>this.dragging?.includes(node)\<close>: false when there is no drag set.\<close>

definition draggingIncludes :: "tree \<Rightarrow> inode \<Rightarrow> bool" where
  "draggingIncludes t n = (case dragging t of None \<Rightarrow> False | Some xs \<Rightarrow> n \<in> set xs)"

text \<open>
  The loop of \<open>canDrop\<close> over the ancestors of the target,
  \<open>while (parent !== undefined) { ... }\<close>. On a parent chain that runs in a cycle outside
  the drag set it does not return: the result \<open>None\<close>.
\<close>

partial_function (option) canDropAncestors ::
  "document \<Rightarrow> tree \<Rightarrow> inode option \<Rightarrow> bool option" where
  "canDropAncestors d t par =
     (case par of
        None \<Rightarrow> Some True
      | Some p \<Rightarrow>
          if draggingIncludes t p then Some False
          else canDropAncestors d t (parent d p))"

definition canDrop :: "document \<Rightarrow> tree \<Rightarrow> pointerEvent \<Rightarrow> bool option" where
  "canDrop d t ev =
     (case targetNode ev of
        None \<Rightarrow> Some False
      | Some n \<Rightarrow>
          if draggingIncludes t n then Some False
          else canDropAncestors d t (parent d n))"

definition onDragOver :: "document \<Rightarrow> tree \<Rightarrow> pointerEvent \<Rightarrow> tree option" where
  "onDragOver d t ev =
     Option.bind (canDrop d t ev)
       (\<lambda>ok. if \<not> ok then Some t
             else Some (t\<lparr> log := log t @ [PreventDefault, SetDropEffect ''move''] \<rparr>))"

text \<open>
  \<open>findAllCommonParents\<close>: the selected nodes, in the order of the set, that have no
  parent or whose parent is not selected.
\<close>

definition findAllCommonParents :: "document \<Rightarrow> tree \<Rightarrow> inode list" where
  "findAllCommonParents d t =
     filter (\<lambda>n. case parent d n of
                   None \<Rightarrow> True
                 | Some p \<Rightarrow> p \<notin> set (selectedNodes t))
       (selectedNodes t)"

definition onDragStart :: "document \<Rightarrow> tree \<Rightarrow> pointerEvent \<Rightarrow> tree" where
  "onDragStart d t ev =
     (let t1 = t\<lparr> log := log t @ [StopPropagation] \<rparr>;
          t2 = t1\<lparr> dragging := Some (findAllCommonParents d t1) \<rparr>
      in case targetNode ev of
           None \<Rightarrow> t2
         | Some item \<Rightarrow>
             if item \<notin> set (selectedNodes t2)
             then t2\<lparr> dragging := Some (findAllCommonParents d t1 @ [item]) \<rparr>
             else t2)"

text \<open>
  \<open>INodeLinkedList.move\<close> belongs to the node graph and is not among the sources: it is a
  parameter, a function from the document, the receiver and the three arguments to the
  document after the move, or to the failure it raises.
\<close>

type_synonym moveFn =
  "document \<Rightarrow> inode \<Rightarrow> inode \<Rightarrow> inode option \<Rightarrow> inode option \<Rightarrow> error + document"

text \<open>
  The body of the transaction in \<open>onDrop\<close>:
  \<open>this.dragging?.forEach((x) => { x.parent?.move(x, newParent!, target); })\<close>. A node
  without a parent is passed over; a move that fails ends the loop with its failure.
  The result is the document after the moves and the calls made, in order.
\<close>

fun moveEach ::
  "moveFn \<Rightarrow> document \<Rightarrow> inode option \<Rightarrow> inode option \<Rightarrow> inode list
     \<Rightarrow> error + (document \<times> moveCall list)" where
  "moveEach mv d np tg [] = Inr (d, [])"
| "moveEach mv d np tg (x # xs) =
     (case parent d x of
        None \<Rightarrow> moveEach mv d np tg xs
      | Some p \<Rightarrow>
          (case mv d p x np tg of
             Inl e \<Rightarrow> Inl e
           | Inr d1 \<Rightarrow>
               (case moveEach mv d1 np tg xs of
                  Inl e \<Rightarrow> Inl e
                | Inr (d2, calls) \<Rightarrow> Inr (d2, Move p x np tg # calls))))"

text \<open>
  Modelled from the spec: \<open>Transaction.excute(document, name, body)\<close>, which is missing.
  It "guarantees body's mutations are committed as one undoable unit": one effect with
  the moves of the body. A failure of the body is the failure of the call ("propagate as
  a transaction failure that aborts the whole step"), and it leaves the graph "in its
  pre-transaction state": the failure comes with the document as it was before the call
  and the tree as the caller had it.
\<close>

definition excute ::
  "document \<Rightarrow> tree \<Rightarrow> string \<Rightarrow> error + (document \<times> moveCall list)
     \<Rightarrow> (error \<times> document \<times> tree) + (document \<times> tree)" where
  "excute d t name body =
     (case body of
        Inl e \<Rightarrow> Inl (e, d, t)
      | Inr (d1, calls) \<Rightarrow> Inr (d1, t\<lparr> log := log t @ [Excute name calls] \<rparr>))"

text \<open>
  \<open>onDrop\<close>. Without a tree item under the target it returns early, the drag set as it
  is. When the transaction fails, the line that clears the drag set is not reached: the
  handler ends with the failure, the document and the tree it leaves behind.
\<close>

definition onDrop ::
  "moveFn \<Rightarrow> document \<Rightarrow> tree \<Rightarrow> pointerEvent
     \<Rightarrow> (error \<times> document \<times> tree) + (document \<times> tree)" where
  "onDrop mv d t ev =
     (let t1 = t\<lparr> log := log t @ [PreventDefault, StopPropagation] \<rparr>
      in case targetNode ev of
           None \<Rightarrow> Inr (d, t1)
         | Some n \<Rightarrow>
             (case excute d t1 ''move node''
                     (let isLinkList = isLinkedListNode d n;
                          newParent = (if isLinkList then Some n else parent d n);
                          target = (if isLinkList then None else Some n)
                      in moveEach mv d newParent target
                           (case dragging t1 of None \<Rightarrow> [] | Some xs \<Rightarrow> xs)) of
                Inl failure \<Rightarrow> Inl failure
              | Inr (d1, t2) \<Rightarrow> Inr (d1, t2\<lparr> dragging := None \<rparr>)))"

subsection \<open>Notions of the statements\<close>

text \<open>
  The parent relation of a document, from a parent to its child. Its transitive closure
  is the ancestor relation; the node graph is acyclic when the relation is well-founded
  (no infinite chain of parents).
\<close>

definition parentRel :: "document \<Rightarrow> (inode \<times> inode) set" where
  "parentRel d = {(p, c). parent d c = Some p}"

text \<open>The drag set as a set: empty when there is none.\<close>

definition dragSet :: "tree \<Rightarrow> inode set" where
  "dragSet t = (case dragging t of None \<Rightarrow> {} | Some xs \<Rightarrow> set xs)"

text \<open>An item as it is once expanded: a group with the flag set, a model item as it was.\<close>

fun expandedItem :: "treeItem \<Rightarrow> treeItem" where
  "expandedItem (TreeGroup n e) = TreeGroup n True"
| "expandedItem (TreeModel n) = TreeModel n"

text \<open>The calls of the selection manager among the effects.\<close>

fun isSelect :: "effect \<Rightarrow> bool" where
  "isSelect (Select ns additive) = True"
| "isSelect _ = False"

definition selectCalls :: "effect list \<Rightarrow> effect list" where
  "selectCalls es = filter isSelect es"

text \<open>
  What a statement about \<open>onDrop\<close> may assume of \<open>move\<close>: a move that succeeds leaves the
  parent of every node but the moved one as it was.
\<close>

definition keepsOtherParents :: "moveFn \<Rightarrow> bool" where
  "keepsOtherParents mv =
     (\<forall>d p x np tg d1 y. mv d p x np tg = Inr d1 \<and> y \<noteq> x \<longrightarrow> parent d1 y = parent d y)"

text \<open>
  Carrying out a list of calls of \<open>move\<close> on a document, one after the other: the
  document after the last call, or the first failure.
\<close>

fun runCalls :: "moveFn \<Rightarrow> document \<Rightarrow> moveCall list \<Rightarrow> error + document" where
  "runCalls mv d [] = Inr d"
| "runCalls mv d (Move p x np tg # calls) =
     (case mv d p x np tg of
        Inl e \<Rightarrow> Inl e
      | Inr d1 \<Rightarrow> runCalls mv d1 calls)"

subsection \<open>Sample documents, trees and records\<close>

text \<open>
  A document with the root \<open>0\<close>, two groups \<open>1\<close> and \<open>4\<close> under it, the leaves \<open>2\<close> and \<open>3\<close>
  in group \<open>1\<close> and the leaf \<open>5\<close> in group \<open>4\<close>. Any other number is a node of neither
  kind. The nodes between two nodes are taken to be the numbers from the one to the
  other.
\<close>

definition sampleDoc :: document where
  "sampleDoc = \<lparr> rootNode = 0,
     parent = (\<lambda>n. if n = 1 \<or> n = 4 then Some 0 else if n = 2 \<or> n = 3 then Some 1
                    else if n = 5 then Some 4 else None),
     firstChild = (\<lambda>n. if n = 0 then Some 1 else if n = 1 then Some 2
                    else if n = 4 then Some 5 else None),
     nextSibling = (\<lambda>n. if n = 1 then Some 4 else if n = 2 then Some 3 else None),
     isLinkedListNode = (\<lambda>n. n = 0 \<or> n = 1 \<or> n = 4),
     isModelNode = (\<lambda>n. n = 2 \<or> n = 3 \<or> n = 5),
     getNodesBetween = (\<lambda>a b. [a ..< Suc b]) \<rparr>"

text \<open>
  The sample document after the leaf \<open>5\<close> has been moved from group \<open>4\<close> to the end of group
  \<open>1\<close>, behind the leaf \<open>3\<close>, and the change record of that move.
\<close>

definition movedDoc :: document where
  "movedDoc = sampleDoc\<lparr>
     parent := (parent sampleDoc)(5 := Some 1),
     firstChild := (firstChild sampleDoc)(4 := None),
     nextSibling := (nextSibling sampleDoc)(3 := Some 5) \<rparr>"

definition moveRecord :: nodeRecord where
  "moveRecord = \<lparr> node = 5, oldParent = Some 4, oldPrevious = None,
                  newParent = Some 1, newPrevious = Some 3 \<rparr>"

text \<open>
  A tree that has an item for group \<open>1\<close> only, and the records of two leaves that are
  added to that group, the second behind the first.
\<close>

definition groupOnly :: tree where
  "groupOnly = emptyTree\<lparr> nodeMap := (\<lambda>n. if n = 1 then Some 0 else None),
                            items := [TreeGroup 1 True] \<rparr>"

definition firstLeaf :: nodeRecord where
  "firstLeaf = \<lparr> node = 2, oldParent = None, oldPrevious = None,
                 newParent = Some 1, newPrevious = None \<rparr>"

definition secondLeaf :: nodeRecord where
  "secondLeaf = \<lparr> node = 3, oldParent = None, oldPrevious = None,
                  newParent = Some 1, newPrevious = Some 2 \<rparr>"


text \<open>
  A tree that shows the whole sample document, node \<open>n\<close> by the item \<open>n\<close>, with the root and
  group \<open>1\<close> collapsed; the same tree without the item of group \<open>1\<close>, with group \<open>1\<close> as the
  drag set, with the leaves \<open>2\<close> and \<open>3\<close> as the drag set, and with \<open>1\<close>, \<open>2\<close> and \<open>5\<close> selected.
\<close>

definition sampleTree :: tree where
  "sampleTree = emptyTree\<lparr>
     nodeMap := (\<lambda>n. if n \<le> 5 then Some n else None),
     items := [TreeGroup 0 False, TreeGroup 1 False, TreeModel 2, TreeModel 3,
               TreeGroup 4 True, TreeModel 5],
     childItems := (\<lambda>p. if p = TreePanel then [0] else if p = Item 0 then [1, 4]
                     else if p = Item 1 then [2, 3] else if p = Item 4 then [5] else []) \<rparr>"

definition gapTree :: tree where
  "gapTree = sampleTree\<lparr> nodeMap := (nodeMap sampleTree)(1 := None) \<rparr>"

definition dragTree :: tree where
  "dragTree = sampleTree\<lparr> dragging := Some [1] \<rparr>"

definition carryTree :: tree where
  "carryTree = sampleTree\<lparr> dragging := Some [2, 3] \<rparr>"

definition pickedTree :: tree where
  "pickedTree = sampleTree\<lparr> selectedNodes := [1, 2, 5] \<rparr>"

text \<open>An event on the item of a node, with no modifier key held.\<close>

definition pointerAt :: "inode \<Rightarrow> pointerEvent" where
  "pointerAt n = \<lparr> targetNode = Some n, shiftKey = False, ctrlKey = False, metaKey = False \<rparr>"

text \<open>A move that sets the parent of the moved node, and fails for a node moved into itself.\<close>

definition reparent :: moveFn where
  "reparent d p x np tg =
     (if np = Some x then Inl MoveFailed else Inr (d\<lparr> parent := (parent d)(x := np) \<rparr>))"

text \<open>
  A document whose root holds the leaf \<open>1\<close> followed by the group \<open>2\<close> with the leaf \<open>3\<close>; the
  tree the constructor builds for it; the same document after a new leaf \<open>4\<close> has been
  added to group \<open>2\<close> behind the leaf \<open>3\<close>, and the change record of that addition.
\<close>

definition leafFirstDoc :: document where
  "leafFirstDoc = \<lparr> rootNode = 0,
     parent = (\<lambda>n. if n = 1 \<or> n = 2 then Some 0 else if n = 3 then Some 2 else None),
     firstChild = (\<lambda>n. if n = 0 then Some 1 else if n = 2 then Some 3 else None),
     nextSibling = (\<lambda>n. if n = 1 then Some 2 else None),
     isLinkedListNode = (\<lambda>n. n = 0 \<or> n = 2),
     isModelNode = (\<lambda>n. n = 1 \<or> n = 3 \<or> n = 4),
     getNodesBetween = (\<lambda>a b. [a ..< Suc b]) \<rparr>"

definition builtLeafFirst :: tree where
  "builtLeafFirst = emptyTree\<lparr>
     nodeMap := (\<lambda>n. if n = 0 then Some 0 else if n = 1 then Some 1 else None),
     items := [TreeGroup 0 True, TreeModel 1],
     childItems := (\<lambda>p. if p = TreePanel then [0] else if p = Item 0 then [1] else []) \<rparr>"



section \<open>Properties\<close>

subsection \<open>Reconciliation of a batch\<close>

text \<open>The fields of a tree after an operation on the elements, one by one.\<close>

lemma appendChild_fields:
  "nodeMap (appendChild t par el) = nodeMap t"
  "items (appendChild t par el) = items t"
  "lastClicked (appendChild t par el) = lastClicked t"
  "selectedNodes (appendChild t par el) = selectedNodes t"
  "dragging (appendChild t par el) = dragging t"
  "currentNode (appendChild t par el) = currentNode t"
  "log (appendChild t par el) = log t"
  "childItems (appendChild t par el) p =
     (if p = par then removeAll el (childItems t p) @ [el] else removeAll el (childItems t p))"
  by (simp_all add: appendChild_def detach_def Let_def)

lemma removeChild_fields:
  "nodeMap (removeChild t par el) = nodeMap t"
  "items (removeChild t par el) = items t"
  "childItems (removeChild t par el) p =
     (if p = par then removeAll el (childItems t p) else childItems t p)"
  by (simp_all add: removeChild_def)

lemma insertAfter_fields:
  "nodeMap (insertAfter t grp el pre) = nodeMap t"
  "items (insertAfter t grp el pre) = items t"
  "childItems (insertAfter t grp el pre) p =
     (if p = Item grp
      then (case pre of None \<Rightarrow> removeAll el (childItems t p) @ [el]
            | Some q \<Rightarrow> insertBehind q el (removeAll el (childItems t p)))
      else removeAll el (childItems t p))"
  by (simp_all add: insertAfter_def detach_def Let_def split: option.splits)

lemma createHTMLElement_nodeMap:
  "createHTMLElement d t n = Inr (el, t1) \<Longrightarrow> nodeMap t1 = nodeMap t \<and> childItems t1 = childItems t"
  by (auto simp: createHTMLElement_def split: if_splits)


lemma ensureHasHTML_keeps:
  "ensureHasHTML d t rs = Inr t1 \<Longrightarrow> nodeMap t n \<noteq> None \<Longrightarrow> nodeMap t1 n \<noteq> None"
proof (induction rs arbitrary: t)
  case Nil
  then show ?case by simp
next
  case (Cons r rs)
  show ?case
  proof (cases "nodeMap t (node r) = None")
    case True
    with Cons.prems obtain el t2 where c: "createHTMLElement d t (node r) = Inr (el, t2)"
      and rest: "ensureHasHTML d (t2\<lparr>nodeMap := (nodeMap t2)(node r := Some el)\<rparr>) rs = Inr t1"
      by (auto split: sum.splits)
    from c have "nodeMap t2 = nodeMap t" by (simp add: createHTMLElement_nodeMap)
    with Cons.prems(2) have "nodeMap (t2\<lparr>nodeMap := (nodeMap t2)(node r := Some el)\<rparr>) n \<noteq> None"
      by simp
    with Cons.IH rest show ?thesis by blast
  next
    case False
    with Cons show ?thesis by simp
  qed
qed

lemma ensureHasHTML_covers:
  "ensureHasHTML d t rs = Inr t1 \<Longrightarrow> r \<in> set rs \<Longrightarrow> nodeMap t1 (node r) \<noteq> None"
proof (induction rs arbitrary: t)
  case Nil
  then show ?case by simp
next
  case (Cons a rs)
  show ?case
  proof (cases "nodeMap t (node a) = None")
    case True
    with Cons.prems obtain el t2 where c: "createHTMLElement d t (node a) = Inr (el, t2)"
      and rest: "ensureHasHTML d (t2\<lparr>nodeMap := (nodeMap t2)(node a := Some el)\<rparr>) rs = Inr t1"
      by (auto split: sum.splits)
    show ?thesis
    proof (cases "r = a")
      case True
      have "nodeMap (t2\<lparr>nodeMap := (nodeMap t2)(node a := Some el)\<rparr>) (node a) \<noteq> None" by simp
      with rest True show ?thesis using ensureHasHTML_keeps by blast
    next
      case False
      with Cons.prems(2) have "r \<in> set rs" by simp
      with Cons.IH rest show ?thesis by blast
    qed
  next
    case False
    note present = this
    with Cons.prems have rest: "ensureHasHTML d t rs = Inr t1" by simp
    show ?thesis
    proof (cases "r = a")
      case True
      with present rest show ?thesis using ensureHasHTML_keeps by blast
    next
      case False
      with Cons.prems(2) have "r \<in> set rs" by simp
      with Cons.IH rest show ?thesis by blast
    qed
  qed
qed

lemma ensureHasHTML_childItems:
  "ensureHasHTML d t rs = Inr t1 \<Longrightarrow> childItems t1 = childItems t"
proof (induction rs arbitrary: t)
  case Nil
  then show ?case by simp
next
  case (Cons r rs)
  show ?case
  proof (cases "nodeMap t (node r) = None")
    case True
    with Cons.prems obtain el t2 where c: "createHTMLElement d t (node r) = Inr (el, t2)"
      and rest: "ensureHasHTML d (t2\<lparr>nodeMap := (nodeMap t2)(node r := Some el)\<rparr>) rs = Inr t1"
      by (auto split: sum.splits)
    from Cons.IH[OF rest] c show ?thesis by (simp add: createHTMLElement_nodeMap)
  next
    case False
    with Cons show ?thesis by simp
  qed
qed


lemma unlinkOld_nodeMap: "nodeMap (unlinkOld t r ele) = nodeMap t"
  by (simp add: unlinkOld_def removeChild_def split: option.splits)

lemma linkNew_nodeMap: "nodeMap (linkNew t r ele) = nodeMap t"
  by (simp add: linkNew_def insertAfter_def detach_def Let_def split: option.splits)

lemma applyRecords_nodeMap: "nodeMap (applyRecords t rs) = nodeMap t"
  by (induction rs arbitrary: t) (auto simp: unlinkOld_nodeMap linkNew_nodeMap split: option.splits)

lemma applyRecords_append:
  "applyRecords t (xs @ ys) = applyRecords (applyRecords t xs) ys"
  by (induction xs arbitrary: t) (auto split: option.splits)

lemma createHTMLElement_item:
  "createHTMLElement d t n = Inr (el, t1) \<Longrightarrow>
     el = length (items t) \<and>
     items t1 = items t @ [if isLinkedListNode d n then TreeGroup n True else TreeModel n]"
  by (auto simp: createHTMLElement_def split: if_splits)

text \<open>
  The creation pass only appends to the heap, keeps the entries there are, and gives
  every record's node that had no entry a new item of its kind.
\<close>

lemma ensureHasHTML_items:
  "ensureHasHTML d t rs = Inr t1 \<Longrightarrow>
     (\<exists>new. items t1 = items t @ new) \<and>
     (\<forall>n el. nodeMap t n = Some el \<longrightarrow> nodeMap t1 n = Some el) \<and>
     (\<forall>q \<in> set rs. nodeMap t (node q) = None \<longrightarrow>
        (\<exists>el. nodeMap t1 (node q) = Some el \<and> length (items t) \<le> el \<and>
              el < length (items t1) \<and>
              items t1 ! el = (if isLinkedListNode d (node q) then TreeGroup (node q) True
                               else TreeModel (node q))))"
proof (induction rs arbitrary: t)
  case Nil
  then show ?case by simp
next
  case (Cons a rs)
  show ?case
  proof (cases "nodeMap t (node a) = None")
    case False
    with Cons.prems have "ensureHasHTML d t rs = Inr t1" by simp
    from Cons.IH [OF this] False show ?thesis by auto
  next
    case True
    define it where "it = (if isLinkedListNode d (node a) then TreeGroup (node a) True
                            else TreeModel (node a))"
    from True Cons.prems obtain el t2 where c: "createHTMLElement d t (node a) = Inr (el, t2)"
      and rest: "ensureHasHTML d (t2\<lparr>nodeMap := (nodeMap t2)(node a := Some el)\<rparr>) rs = Inr t1"
      by (auto split: sum.splits)
    define t3 where "t3 = t2\<lparr>nodeMap := (nodeMap t2)(node a := Some el)\<rparr>"
    from c have el: "el = length (items t)" and i2: "items t2 = items t @ [it]"
      by (simp_all add: createHTMLElement_item it_def)
    from c have m2: "nodeMap t2 = nodeMap t" by (simp add: createHTMLElement_nodeMap)
    have i3: "items t3 = items t @ [it]" and m3: "nodeMap t3 = (nodeMap t)(node a := Some el)"
      by (simp_all add: t3_def i2 m2)
    from Cons.IH [of t3] rest obtain new where
      grow: "items t1 = items t3 @ new"
      and keep: "\<forall>n e. nodeMap t3 n = Some e \<longrightarrow> nodeMap t1 n = Some e"
      and made: "\<forall>q \<in> set rs. nodeMap t3 (node q) = None \<longrightarrow>
        (\<exists>e. nodeMap t1 (node q) = Some e \<and> length (items t3) \<le> e \<and>
              e < length (items t1) \<and>
              items t1 ! e = (if isLinkedListNode d (node q) then TreeGroup (node q) True
                              else TreeModel (node q)))"
      unfolding t3_def by blast
    have g: "items t1 = items t @ (it # new)" using grow i3 by simp
    have k: "\<forall>n e. nodeMap t n = Some e \<longrightarrow> nodeMap t1 n = Some e"
    proof (intro allI impI)
      fix n e
      assume n: "nodeMap t n = Some e"
      with True have "n \<noteq> node a" by auto
      with n have "nodeMap t3 n = Some e" by (simp add: m3)
      with keep show "nodeMap t1 n = Some e" by blast
    qed
    have own: "nodeMap t1 (node a) = Some el \<and> length (items t) \<le> el \<and>
               el < length (items t1) \<and> items t1 ! el = it"
      using keep by (simp add: m3 el g nth_append)
    have "\<exists>e. nodeMap t1 (node q) = Some e \<and> length (items t) \<le> e \<and>
              e < length (items t1) \<and>
              items t1 ! e = (if isLinkedListNode d (node q) then TreeGroup (node q) True
                              else TreeModel (node q))"
      if q: "q \<in> set (a # rs)" and n: "nodeMap t (node q) = None" for q
    proof (cases "node q = node a")
      case True
      with own show ?thesis by (auto simp: it_def)
    next
      case False
      with q n have "q \<in> set rs" and "nodeMap t3 (node q) = None" by (auto simp: m3)
      with made obtain e where "nodeMap t1 (node q) = Some e" "length (items t3) \<le> e"
        "e < length (items t1)"
        "items t1 ! e = (if isLinkedListNode d (node q) then TreeGroup (node q) True
                         else TreeModel (node q))"
        by blast
      then show ?thesis by (auto simp: i3)
    qed
    with g k show ?thesis by blast
  qed
qed

lemma unlinkOld_items: "items (unlinkOld t r ele) = items t"
  by (simp add: unlinkOld_def removeChild_def split: option.splits)

lemma linkNew_items: "items (linkNew t r ele) = items t"
  by (simp add: linkNew_def insertAfter_def detach_def Let_def split: option.splits)

lemma applyRecords_items: "items (applyRecords t rs) = items t"
  by (induction rs arbitrary: t) (auto simp: unlinkOld_items linkNew_items split: option.splits)

text \<open>
  Claim C2. \<open>handleNodeLinkedChanged\<close> first runs \<open>ensureHasHTML\<close> over the whole batch and
  only then applies the records. When the pass completes, the creation pass has returned
  a tree \<open>t1\<close> with the children of every element as they were (no structural effect
  yet). In \<open>t1\<close> the heap is the old heap with new items behind it, every entry there was
  is kept, and the node of every record that had no entry has one: a new item, not in
  the old heap, of the node's kind and for that node. The result is the records applied
  to \<open>t1\<close>, on the same heap. At whatever record \<open>r\<close> the batch is split, the tree the
  records before \<open>r\<close> have been applied to, which is the tree \<open>r\<close> is applied to, has the
  entries and the heap of \<open>t1\<close>: an entry for the node of every record of the batch. (When
  the creation pass throws, no record is applied at all.)
\<close>

theorem entries_before_structure:
  assumes "handleNodeLinkedChanged d t records = Inr t'"
  shows "\<exists>t1. ensureHasHTML d t records = Inr t1 \<and> childItems t1 = childItems t \<and>
           t' = applyRecords t1 records \<and>
           (\<exists>new. items t1 = items t @ new) \<and> items t' = items t1 \<and>
           (\<forall>n el. nodeMap t n = Some el \<longrightarrow> nodeMap t1 n = Some el) \<and>
           (\<forall>q \<in> set records. nodeMap t (node q) = None \<longrightarrow>
              (\<exists>el. nodeMap t1 (node q) = Some el \<and> length (items t) \<le> el \<and>
                    el < length (items t1) \<and>
                    items t1 ! el = (if isLinkedListNode d (node q) then TreeGroup (node q) True
                                     else TreeModel (node q)))) \<and>
           (\<forall>pre r post. records = pre @ r # post \<longrightarrow>
              t' = applyRecords (applyRecords t1 pre) (r # post) \<and>
              nodeMap (applyRecords t1 pre) = nodeMap t1 \<and>
              items (applyRecords t1 pre) = items t1 \<and>
              (\<forall>q \<in> set records. nodeMap (applyRecords t1 pre) (node q) \<noteq> None))"
proof -
  from assms obtain t1 where e: "ensureHasHTML d t records = Inr t1"
    and t': "t' = applyRecords t1 records"
    by (auto simp: handleNodeLinkedChanged_def split: sum.splits)
  have c: "childItems t1 = childItems t" using e by (rule ensureHasHTML_childItems)
  have i: "items t' = items t1" by (simp add: t' applyRecords_items)
  have s: "\<forall>q \<in> set records. nodeMap (applyRecords t1 pre) (node q) \<noteq> None" for pre
    using e by (simp add: applyRecords_nodeMap ensureHasHTML_covers)
  have a: "\<forall>pre r post. records = pre @ r # post \<longrightarrow>
              t' = applyRecords (applyRecords t1 pre) (r # post) \<and>
              nodeMap (applyRecords t1 pre) = nodeMap t1 \<and>
              items (applyRecords t1 pre) = items t1 \<and>
              (\<forall>q \<in> set records. nodeMap (applyRecords t1 pre) (node q) \<noteq> None)"
    using s t' by (auto simp: applyRecords_append applyRecords_nodeMap applyRecords_items)
  from ensureHasHTML_items [OF e] e c t' i a show ?thesis by blast
qed

text \<open>
  Claim C2 at a batch of two records under a group that has its item: the second record
  names the first one's node as its new previous sibling. The creation pass makes the
  items \<open>1\<close> and \<open>2\<close> for the two leaves; when the first record is applied, the node of the
  second has its item already; in the end the group shows the two items in order.
\<close>

theorem entries_before_structure_witness:
  "\<exists>t' t1. handleNodeLinkedChanged sampleDoc groupOnly [firstLeaf, secondLeaf] = Inr t' \<and>
      ensureHasHTML sampleDoc groupOnly [firstLeaf, secondLeaf] = Inr t1 \<and>
      childItems t1 = childItems groupOnly \<and>
      items t1 = [TreeGroup 1 True, TreeModel 2, TreeModel 3] \<and>
      nodeMap t1 1 = Some 0 \<and> nodeMap t1 2 = Some 1 \<and> nodeMap t1 3 = Some 2 \<and>
      nodeMap (applyRecords t1 [firstLeaf]) (node secondLeaf) = Some 2 \<and>
      items (applyRecords t1 [firstLeaf]) = items t1 \<and>
      t' = applyRecords (applyRecords t1 [firstLeaf]) [secondLeaf] \<and>
      items t' = [TreeGroup 1 True, TreeModel 2, TreeModel 3] \<and>
      childItems t' (Item 0) = [1, 2]"
proof -
  define t1 where "t1 = groupOnly\<lparr>
      items := [TreeGroup 1 True, TreeModel 2, TreeModel 3],
      nodeMap := (nodeMap groupOnly)(2 := Some 1, 3 := Some 2) \<rparr>"
  have e: "ensureHasHTML sampleDoc groupOnly [firstLeaf, secondLeaf] = Inr t1"
    by (simp add: t1_def sampleDoc_def groupOnly_def firstLeaf_def secondLeaf_def
          createHTMLElement_def emptyTree_def fun_eq_iff)
  then have h: "handleNodeLinkedChanged sampleDoc groupOnly [firstLeaf, secondLeaf] =
                  Inr (applyRecords t1 [firstLeaf, secondLeaf])"
    by (simp add: handleNodeLinkedChanged_def)
  from entries_before_structure [OF h] obtain u where
    u: "ensureHasHTML sampleDoc groupOnly [firstLeaf, secondLeaf] = Inr u"
    and ui: "items (applyRecords t1 [firstLeaf, secondLeaf]) = items u"
    and ua: "\<forall>pre r post. [firstLeaf, secondLeaf] = pre @ r # post \<longrightarrow>
          applyRecords t1 [firstLeaf, secondLeaf] = applyRecords (applyRecords u pre) (r # post) \<and>
          nodeMap (applyRecords u pre) = nodeMap u \<and>
          items (applyRecords u pre) = items u \<and>
          (\<forall>q \<in> set [firstLeaf, secondLeaf]. nodeMap (applyRecords u pre) (node q) \<noteq> None)"
    by blast
  from u e have ut: "u = t1" by simp
  have
    a: "\<forall>pre r post. [firstLeaf, secondLeaf] = pre @ r # post \<longrightarrow>
          applyRecords t1 [firstLeaf, secondLeaf] = applyRecords (applyRecords t1 pre) (r # post) \<and>
          nodeMap (applyRecords t1 pre) = nodeMap t1 \<and>
          items (applyRecords t1 pre) = items t1 \<and>
          (\<forall>q \<in> set [firstLeaf, secondLeaf]. nodeMap (applyRecords t1 pre) (node q) \<noteq> None)"
    and i: "items (applyRecords t1 [firstLeaf, secondLeaf]) = items t1"
    using ua ui unfolding ut by blast+
  from a have s: "applyRecords t1 [firstLeaf, secondLeaf] =
        applyRecords (applyRecords t1 [firstLeaf]) (secondLeaf # []) \<and>
      nodeMap (applyRecords t1 [firstLeaf]) = nodeMap t1 \<and>
      items (applyRecords t1 [firstLeaf]) = items t1"
    by (metis append_Cons append_Nil)
  have f: "items t1 = [TreeGroup 1 True, TreeModel 2, TreeModel 3]"
    "nodeMap t1 1 = Some 0" "nodeMap t1 2 = Some 1" "nodeMap t1 3 = Some 2"
    "childItems t1 = childItems groupOnly" "node secondLeaf = 3"
    by (simp_all add: t1_def groupOnly_def emptyTree_def secondLeaf_def)
  have c: "childItems (applyRecords t1 [firstLeaf, secondLeaf]) (Item 0) = [1, 2]"
    by (simp add: t1_def groupOnly_def emptyTree_def firstLeaf_def secondLeaf_def unlinkOld_def
          linkNew_def isTreeGroup_def insertAfter_fields)
  show ?thesis using h e s i f c by simp
qed



text \<open>The tree the constructor builds for the document with the leaf in front.\<close>

lemma newTree_leafFirstDoc: "newTree leafFirstDoc = Some (Inr builtLeafFirst)"
proof -
  have "\<exists>t. newTree leafFirstDoc = Some (Inr t) \<and>
          nodeMap t = nodeMap builtLeafFirst \<and> lastClicked t = None \<and> selectedNodes t = [] \<and>
          dragging t = None \<and> items t = items builtLeafFirst \<and>
          childItems t = childItems builtLeafFirst \<and> currentNode t = None \<and> log t = []"
    by (simp add: newTree_def leafFirstDoc_def addAllNodes.simps createHTMLElement_def
          emptyTree_def builtLeafFirst_def appendChild_fields Let_def fun_eq_iff)
  then obtain t where n: "newTree leafFirstDoc = Some (Inr t)"
    and f: "nodeMap t = nodeMap builtLeafFirst" "lastClicked t = None" "selectedNodes t = []"
      "dragging t = None" "items t = items builtLeafFirst"
      "childItems t = childItems builtLeafFirst" "currentNode t = None" "log t = []"
    by blast
  have "t = builtLeafFirst"
    by (rule tree.equality) (simp_all add: f, simp_all add: builtLeafFirst_def emptyTree_def)
  with n show ?thesis by simp
qed




subsection \<open>The initial build\<close>

text \<open>
  Claim C5, evaluated on the sample document. The walk from the root returns; it has
  made items for the nodes \<open>0\<close>, \<open>1\<close>, \<open>2\<close>, \<open>4\<close> and \<open>5\<close>. The leaf \<open>3\<close> is the next sibling of
  the leaf \<open>2\<close>, so it is reachable from the root, but it has no item and is not among
  the children of its parent's item: \<open>addAllNodes\<close> follows \<open>nextSibling\<close> only from a
  linked-list node.
\<close>

theorem initial_build_skips_sibling_of_leaf:
  "\<exists>t. newTree sampleDoc = Some (Inr t) \<and>
       items t = [TreeGroup 0 True, TreeGroup 1 True, TreeModel 2, TreeGroup 4 True, TreeModel 5] \<and>
       nodeMap t 2 = Some 2 \<and> nextSibling sampleDoc 2 = Some 3 \<and> nodeMap t 3 = None \<and>
       childItems t (Item 1) = [2]"
  by (simp add: newTree_def sampleDoc_def addAllNodes.simps createHTMLElement_def emptyTree_def
        appendChild_fields Let_def)

text \<open>
  Claim C1, evaluated on the sample document. The tree is built, then the leaf \<open>5\<close> is
  moved behind the leaf \<open>3\<close> in group \<open>1\<close> and the batch with that one record is
  reconciled. In the graph the children of \<open>1\<close> are now \<open>2\<close>, \<open>3\<close>, \<open>5\<close>; under the item of
  \<open>1\<close> the view shows the items of \<open>2\<close> and \<open>5\<close> only, and \<open>3\<close> still has no item.
\<close>

theorem view_differs_from_graph_after_batch:
  "\<exists>t t'. newTree sampleDoc = Some (Inr t) \<and>
       handleNodeLinkedChanged movedDoc t [moveRecord] = Inr t' \<and>
       firstChild movedDoc 1 = Some 2 \<and> nextSibling movedDoc 2 = Some 3 \<and>
       nextSibling movedDoc 3 = Some 5 \<and> nextSibling movedDoc 5 = None \<and>
       map (\<lambda>el. items t' ! el) (childItems t' (Item 1)) = [TreeModel 2, TreeModel 5] \<and>
       nodeMap t' 3 = None"
  by (simp add: newTree_def sampleDoc_def movedDoc_def moveRecord_def addAllNodes.simps
        createHTMLElement_def emptyTree_def appendChild_fields removeChild_fields
        insertAfter_fields Let_def handleNodeLinkedChanged_def unlinkOld_def linkNew_def
        isTreeGroup_def)

subsection \<open>Ancestors\<close>

lemma parentRel_iff: "(p, c) \<in> parentRel d \<longleftrightarrow> parent d c = Some p"
  by (simp add: parentRel_def)

lemma ancestorOrSelf_unfold:
  "(a, n) \<in> (parentRel d)\<^sup>* \<longleftrightarrow>
     a = n \<or> (case parent d n of None \<Rightarrow> False | Some q \<Rightarrow> (a, q) \<in> (parentRel d)\<^sup>*)"
proof
  assume "(a, n) \<in> (parentRel d)\<^sup>*"
  then show "a = n \<or> (case parent d n of None \<Rightarrow> False | Some q \<Rightarrow> (a, q) \<in> (parentRel d)\<^sup>*)"
    by (cases rule: rtranclE) (auto simp: parentRel_iff)
next
  assume "a = n \<or> (case parent d n of None \<Rightarrow> False | Some q \<Rightarrow> (a, q) \<in> (parentRel d)\<^sup>*)"
  then show "(a, n) \<in> (parentRel d)\<^sup>*"
    by (auto simp: parentRel_iff split: option.splits intro: rtrancl_into_rtrancl)
qed

lemma ancestor_unfold:
  "(a, n) \<in> (parentRel d)\<^sup>+ \<longleftrightarrow>
     (case parent d n of None \<Rightarrow> False | Some q \<Rightarrow> (a, q) \<in> (parentRel d)\<^sup>*)"
proof
  assume "(a, n) \<in> (parentRel d)\<^sup>+"
  then show "case parent d n of None \<Rightarrow> False | Some q \<Rightarrow> (a, q) \<in> (parentRel d)\<^sup>*"
    by (cases rule: tranclE) (auto simp: parentRel_iff)
next
  assume "case parent d n of None \<Rightarrow> False | Some q \<Rightarrow> (a, q) \<in> (parentRel d)\<^sup>*"
  then show "(a, n) \<in> (parentRel d)\<^sup>+"
    by (auto simp: parentRel_iff split: option.splits intro: rtrancl_into_trancl1)
qed

subsection \<open>Selection changes: the ancestor walk\<close>

lemma expand_frame: "expand t g = t\<lparr> items := items (expand t g) \<rparr>"
  by (simp add: expand_def split: treeItem.splits)

lemma expand_nodeMap: "nodeMap (expand t g) = nodeMap t"
  by (simp add: expand_def split: treeItem.splits)

lemma expand_length: "length (items (expand t g)) = length (items t)"
  by (simp add: expand_def split: treeItem.splits)

lemma expand_nth:
  "k < length (items t) \<Longrightarrow>
     items (expand t g) ! k = (if k = g then expandedItem (items t ! k) else items t ! k)"
  by (cases "items t ! g") (auto simp: expand_def nth_list_update split: treeItem.splits)

lemma expandedItem_idem: "expandedItem (expandedItem x) = expandedItem x"
  by (cases x) simp_all

text \<open>The walk on an acyclic graph all of whose nodes on the way have an item.\<close>

lemma expandAncestors_wf:
  assumes "wf (parentRel d)"
  shows "(\<forall>a. (a, p) \<in> (parentRel d)\<^sup>* \<longrightarrow> nodeMap t a \<noteq> None) \<Longrightarrow>
         \<exists>t'. expandAncestors d t (Some p) = Some t' \<and> t' = t\<lparr> items := items t' \<rparr> \<and>
              length (items t') = length (items t) \<and>
              (\<forall>k < length (items t). items t' ! k =
                 (if \<exists>a. (a, p) \<in> (parentRel d)\<^sup>* \<and> nodeMap t a = Some k
                  then expandedItem (items t ! k) else items t ! k))"
  using assms
proof (induction p arbitrary: t rule: wf_induct_rule)
  case (less p)
  from less.prems have "nodeMap t p \<noteq> None" by blast
  then obtain g where g: "nodeMap t p = Some g" by blast
  show ?case
  proof (cases "parent d p")
    case None
    have own: "(a, p) \<in> (parentRel d)\<^sup>* \<longleftrightarrow> a = p" for a
      by (subst ancestorOrSelf_unfold) (simp add: None)
    have "expandAncestors d t (Some p) = Some (expand t g)"
      by (subst expandAncestors.simps) (simp add: g None expandAncestors.simps)
    moreover have "expand t g = t\<lparr> items := items (expand t g) \<rparr>" by (rule expand_frame)
    moreover have "\<forall>k < length (items t). items (expand t g) ! k =
                 (if \<exists>a. (a, p) \<in> (parentRel d)\<^sup>* \<and> nodeMap t a = Some k
                  then expandedItem (items t ! k) else items t ! k)"
      by (auto simp: own g expand_nth)
    ultimately show ?thesis by (simp add: expand_length)
  next
    case (Some q)
    have up: "(a, p) \<in> (parentRel d)\<^sup>* \<longleftrightarrow> a = p \<or> (a, q) \<in> (parentRel d)\<^sup>*" for a
      by (subst ancestorOrSelf_unfold) (simp add: Some)
    have qp: "(q, p) \<in> parentRel d" using Some by (simp add: parentRel_iff)
    have "\<forall>a. (a, q) \<in> (parentRel d)\<^sup>* \<longrightarrow> nodeMap (expand t g) a \<noteq> None"
      using less.prems by (simp add: expand_nodeMap up)
    from less.IH [OF qp this] obtain t' where
      r: "expandAncestors d (expand t g) (Some q) = Some t'"
      and f: "t' = (expand t g)\<lparr> items := items t' \<rparr>"
      and l: "length (items t') = length (items (expand t g))"
      and i: "\<forall>k < length (items (expand t g)). items t' ! k =
                 (if \<exists>a. (a, q) \<in> (parentRel d)\<^sup>* \<and> nodeMap (expand t g) a = Some k
                  then expandedItem (items (expand t g) ! k) else items (expand t g) ! k)"
      by blast
    have "expandAncestors d t (Some p) = Some t'"
      by (subst expandAncestors.simps) (simp add: g Some r)
    moreover have "t' = t\<lparr> items := items t' \<rparr>"
      using f expand_frame [of t g] by (metis tree.surjective tree.update_convs(5))
    moreover have "length (items t') = length (items t)" using l by (simp add: expand_length)
    moreover have "\<forall>k < length (items t). items t' ! k =
                 (if \<exists>a. (a, p) \<in> (parentRel d)\<^sup>* \<and> nodeMap t a = Some k
                  then expandedItem (items t ! k) else items t ! k)"
    proof (intro allI impI)
      fix k assume k: "k < length (items t)"
      then have "items t' ! k =
                 (if \<exists>a. (a, q) \<in> (parentRel d)\<^sup>* \<and> nodeMap t a = Some k
                  then expandedItem (items (expand t g) ! k) else items (expand t g) ! k)"
        using i by (simp add: expand_length expand_nodeMap)
      then show "items t' ! k =
                 (if \<exists>a. (a, p) \<in> (parentRel d)\<^sup>* \<and> nodeMap t a = Some k
                  then expandedItem (items t ! k) else items t ! k)"
        using k g by (auto simp: up expand_nth expandedItem_idem)
    qed
    ultimately show ?thesis by blast
  qed
qed

text \<open>The walk never returns once a node on the way has no item.\<close>

lemma expandAncestors_Some:
  assumes "expandAncestors d t par = Some t'"
  shows "\<forall>p a. par = Some p \<longrightarrow> (a, p) \<in> (parentRel d)\<^sup>* \<longrightarrow> nodeMap t a \<noteq> None"
proof (rule expandAncestors.raw_induct
    [where P = "\<lambda>d t par t'. \<forall>p a. par = Some p \<longrightarrow> (a, p) \<in> (parentRel d)\<^sup>* \<longrightarrow> nodeMap t a \<noteq> None",
     OF _ assms])
  fix walk :: "document \<Rightarrow> tree \<Rightarrow> inode option \<Rightarrow> tree option"
  fix d t par t'
  assume ih: "\<And>d t par t'. walk d t par = Some t' \<Longrightarrow>
     \<forall>p a. par = Some p \<longrightarrow> (a, p) \<in> (parentRel d)\<^sup>* \<longrightarrow> nodeMap t a \<noteq> None"
  assume body: "(case par of None \<Rightarrow> Some t
      | Some p \<Rightarrow>
          (case nodeMap t p of None \<Rightarrow> walk d t (Some p)
           | Some g \<Rightarrow> walk d (expand t g) (parent d p))) = Some t'"
  show "\<forall>p a. par = Some p \<longrightarrow> (a, p) \<in> (parentRel d)\<^sup>* \<longrightarrow> nodeMap t a \<noteq> None"
  proof (intro allI impI)
    fix p a
    assume par: "par = Some p" and a: "(a, p) \<in> (parentRel d)\<^sup>*"
    show "nodeMap t a \<noteq> None"
    proof (cases "nodeMap t p")
      case None
      with body par have "walk d t (Some p) = Some t'" by simp
      from ih [OF this] a show ?thesis by blast
    next
      case (Some g)
      with body par have w: "walk d (expand t g) (parent d p) = Some t'" by simp
      from a have "a = p \<or> (case parent d p of None \<Rightarrow> False | Some q \<Rightarrow> (a, q) \<in> (parentRel d)\<^sup>*)"
        by (subst (asm) ancestorOrSelf_unfold)
      then show ?thesis
      proof
        assume "a = p"
        with Some show ?thesis by simp
      next
        assume "case parent d p of None \<Rightarrow> False | Some q \<Rightarrow> (a, q) \<in> (parentRel d)\<^sup>*"
        then obtain q where q: "parent d p = Some q" and aq: "(a, q) \<in> (parentRel d)\<^sup>*"
          by (auto split: option.splits)
        from ih [OF w] q aq have "nodeMap (expand t g) a \<noteq> None" by blast
        then show ?thesis by (simp add: expand_nodeMap)
      qed
    qed
  qed
qed

lemma styleOf_fields:
  "nodeMap (t\<lparr> log := l \<rparr>) = nodeMap t" "items (t\<lparr> log := l \<rparr>) = items t"
  by simp_all

lemma unselectEach_fields:
  "nodeMap (unselectEach t xs) = nodeMap t \<and> items (unselectEach t xs) = items t"
  by (induction xs arbitrary: t) simp_all

lemma selectEach_fields:
  "nodeMap (selectEach t xs) = nodeMap t \<and> items (selectEach t xs) = items t"
  by (induction xs arbitrary: t) simp_all

lemma setLastClickItem_fields:
  "nodeMap (setLastClickItem d t i) = nodeMap t \<and> items (setLastClickItem d t i) = items t"
  by (simp add: setLastClickItem_def Let_def split: option.splits)

lemma walk_from_parent:
  assumes "wf (parentRel d)" and "\<forall>a. (a, n) \<in> (parentRel d)\<^sup>+ \<longrightarrow> nodeMap t a \<noteq> None"
  shows "\<exists>t'. expandAncestors d t (parent d n) = Some t' \<and> t' = t\<lparr> items := items t' \<rparr> \<and>
              length (items t') = length (items t) \<and>
              (\<forall>k < length (items t). items t' ! k =
                 (if \<exists>a. (a, n) \<in> (parentRel d)\<^sup>+ \<and> nodeMap t a = Some k
                  then expandedItem (items t ! k) else items t ! k))"
proof (cases "parent d n")
  case None
  then have "(a, n) \<notin> (parentRel d)\<^sup>+" for a by (subst ancestor_unfold) simp
  then show ?thesis using None by (simp add: expandAncestors.simps)
next
  case (Some q)
  then have up: "(a, n) \<in> (parentRel d)\<^sup>+ \<longleftrightarrow> (a, q) \<in> (parentRel d)\<^sup>*" for a
    by (subst ancestor_unfold) simp
  with assms(2) have "\<forall>a. (a, q) \<in> (parentRel d)\<^sup>* \<longrightarrow> nodeMap t a \<noteq> None" by simp
  from expandAncestors_wf [OF assms(1) this] show ?thesis by (simp add: Some up)
qed

text \<open>
  The selection change on a tree that has an item for every ancestor of the first newly
  selected node \<open>n\<close>, the graph being acyclic. \<open>handleSelectionChanged\<close> returns, and in the
  tree it returns every ancestor's item is expanded: a group that was collapsed has its
  flag set, whether or not an ancestor below it was collapsed too, and every other item
  is as it was. The last effect, after all effects of applying the selection, is
  \<open>scrollIntoView\<close> on the item of \<open>n\<close> (no effect if \<open>n\<close> has no item).
\<close>

lemma selection_change_expands_ancestors:
  assumes "wf (parentRel d)"
    and "\<forall>a. (a, n) \<in> (parentRel d)\<^sup>+ \<longrightarrow> nodeMap t a \<noteq> None"
  shows "\<exists>t'. handleSelectionChanged d t (n # sel) unsel = Some t' \<and>
           nodeMap t' = nodeMap t \<and> length (items t') = length (items t) \<and>
           (\<forall>k < length (items t). items t' ! k =
              (if \<exists>a. (a, n) \<in> (parentRel d)\<^sup>+ \<and> nodeMap t a = Some k
               then expandedItem (items t ! k) else items t ! k)) \<and>
           log t' = log (selectEach (setLastClickItem d (unselectEach t unsel) None) (n # sel))
                    @ (case nodeMap t n of None \<Rightarrow> [] | Some e \<Rightarrow> [ScrollIntoView e])"
proof -
  define s where "s = selectEach (setLastClickItem d (unselectEach t unsel) None) (n # sel)"
  have m: "nodeMap s = nodeMap t" and i: "items s = items t"
    unfolding s_def
    by (simp_all only: selectEach_fields setLastClickItem_fields unselectEach_fields)
  from assms(2) have "\<forall>a. (a, n) \<in> (parentRel d)\<^sup>+ \<longrightarrow> nodeMap s a \<noteq> None" by (simp add: m)
  from walk_from_parent [OF assms(1) this] obtain t1 where
    w: "expandAncestors d s (parent d n) = Some t1" and f: "t1 = s\<lparr> items := items t1 \<rparr>"
    and l: "length (items t1) = length (items s)"
    and c: "\<forall>k < length (items s). items t1 ! k =
                 (if \<exists>a. (a, n) \<in> (parentRel d)\<^sup>+ \<and> nodeMap s a = Some k
                  then expandedItem (items s ! k) else items s ! k)"
    by blast
  from f have m1: "nodeMap t1 = nodeMap s" and l1: "log t1 = log s"
    by (metis tree.select_convs(1) tree.surjective tree.update_convs(5),
        metis tree.select_convs(8) tree.surjective tree.update_convs(5))
  let ?r = "t1\<lparr> log := log t1 @ styleOf t1 n ScrollIntoView \<rparr>"
  have "handleSelectionChanged d t (n # sel) unsel = scrollToNode d s (n # sel)"
    by (simp only: handleSelectionChanged_def s_def)
  then have h: "handleSelectionChanged d t (n # sel) unsel = Some ?r"
    using w by (simp add: scrollToNode_def)
  have r1: "nodeMap ?r = nodeMap t" by (simp add: m1 m)
  have r2: "length (items ?r) = length (items t)" by (simp add: l i)
  have "\<forall>k < length (items t). items t1 ! k =
              (if \<exists>a. (a, n) \<in> (parentRel d)\<^sup>+ \<and> nodeMap t a = Some k
               then expandedItem (items t ! k) else items t ! k)"
    using c by (simp only: m i)
  then have r3: "\<forall>k < length (items t). items ?r ! k =
              (if \<exists>a. (a, n) \<in> (parentRel d)\<^sup>+ \<and> nodeMap t a = Some k
               then expandedItem (items t ! k) else items t ! k)"
    by simp
  have r4: "log ?r = log s @ (case nodeMap t n of None \<Rightarrow> [] | Some e \<Rightarrow> [ScrollIntoView e])"
    by (simp add: styleOf_def l1 m1 m)
  show ?thesis unfolding s_def [symmetric] using h r1 r2 r3 r4 by blast
qed

text \<open>
  Claim C10. On an acyclic graph, if every ancestor of the first selected node has an
  item, \<open>scrollToNode\<close> returns. If some ancestor has no item it does not return, whatever
  the graph: the walk from an ancestor without an item starts its next round from the
  same ancestor.
\<close>

theorem ancestor_walk_termination:
  "(wf (parentRel d) \<and> (\<forall>a. (a, n) \<in> (parentRel d)\<^sup>+ \<longrightarrow> nodeMap t a \<noteq> None)
      \<longrightarrow> scrollToNode d t (n # sel) \<noteq> None) \<and>
   ((a, n) \<in> (parentRel d)\<^sup>+ \<and> nodeMap t a = None \<longrightarrow> scrollToNode d t (n # sel) = None) \<and>
   (nodeMap t p = None \<longrightarrow> expandAncestors d t (Some p) = None)"
proof (intro conjI impI)
  assume "wf (parentRel d) \<and> (\<forall>a. (a, n) \<in> (parentRel d)\<^sup>+ \<longrightarrow> nodeMap t a \<noteq> None)"
  then obtain t' where "expandAncestors d t (parent d n) = Some t'"
    using walk_from_parent [of d n t] by blast
  then show "scrollToNode d t (n # sel) \<noteq> None" by (simp add: scrollToNode_def)
next
  assume h: "(a, n) \<in> (parentRel d)\<^sup>+ \<and> nodeMap t a = None"
  then obtain q where q: "parent d n = Some q" and aq: "(a, q) \<in> (parentRel d)\<^sup>*"
    by (subst (asm) ancestor_unfold) (auto split: option.splits)
  have "expandAncestors d t (Some q) = None"
  proof (cases "expandAncestors d t (Some q)")
    case None
    then show ?thesis .
  next
    case (Some t')
    from expandAncestors_Some [OF this] aq h show ?thesis by blast
  qed
  then show "scrollToNode d t (n # sel) = None" by (simp add: scrollToNode_def q)
next
  assume h: "nodeMap t p = None"
  show "expandAncestors d t (Some p) = None"
  proof (cases "expandAncestors d t (Some p)")
    case None
    then show ?thesis .
  next
    case (Some t')
    from expandAncestors_Some [OF this] h show ?thesis by blast
  qed
qed

lemma wf_sampleDoc: "wf (parentRel sampleDoc)"
proof -
  have "parentRel sampleDoc \<subseteq> {(x, y). x < y}"
    by (auto simp: parentRel_def sampleDoc_def split: if_splits)
  then show ?thesis by (rule wf_subset [OF wf_less])
qed

lemma ancestors_of_2: "(a, 2) \<in> (parentRel sampleDoc)\<^sup>+ \<longleftrightarrow> a = 1 \<or> a = 0"
  by (subst ancestor_unfold, simp add: sampleDoc_def,
      subst ancestorOrSelf_unfold, simp add: sampleDoc_def,
      subst ancestorOrSelf_unfold, simp add: sampleDoc_def)

text \<open>
  Claim C10 on the sample document: selecting the leaf \<open>2\<close> returns when the groups \<open>1\<close>
  and \<open>0\<close> above it have items, and does not return when group \<open>1\<close> has none.
\<close>

theorem ancestor_walk_termination_witness:
  "scrollToNode sampleDoc sampleTree [2] \<noteq> None \<and> nodeMap gapTree 1 = None \<and>
   scrollToNode sampleDoc gapTree [2] = None \<and> expandAncestors sampleDoc gapTree (Some 1) = None"
proof -
  have e: "\<forall>a. (a, 2) \<in> (parentRel sampleDoc)\<^sup>+ \<longrightarrow> nodeMap sampleTree a \<noteq> None"
    by (simp add: ancestors_of_2 sampleTree_def emptyTree_def)
  have g: "(1, 2) \<in> (parentRel sampleDoc)\<^sup>+" "nodeMap gapTree 1 = None"
    by (simp_all add: ancestors_of_2 gapTree_def)
  show ?thesis
    using ancestor_walk_termination [of sampleDoc 2 sampleTree "[]" 1 1]
          ancestor_walk_termination [of sampleDoc 2 gapTree "[]" 1 1]
          wf_sampleDoc e g
    by simp
qed

text \<open>
  On the tree that shows the whole sample document: the leaf \<open>2\<close> lies in the collapsed
  group \<open>1\<close> under the collapsed root. Selecting it expands both and scrolls to its item;
  group \<open>4\<close> is not touched.
\<close>

lemma selection_change_expands_ancestors_sample:
  "\<exists>t'. handleSelectionChanged sampleDoc sampleTree [2] [] = Some t' \<and>
      items sampleTree ! 0 = TreeGroup 0 False \<and> items t' ! 0 = TreeGroup 0 True \<and>
      items sampleTree ! 1 = TreeGroup 1 False \<and> items t' ! 1 = TreeGroup 1 True \<and>
      items t' ! 4 = TreeGroup 4 True \<and>
      log t' = [AddSelectedStyle 2 selected, ScrollIntoView 2]"
proof -
  have e: "\<forall>a. (a, 2) \<in> (parentRel sampleDoc)\<^sup>+ \<longrightarrow> nodeMap sampleTree a \<noteq> None"
    by (simp add: ancestors_of_2 sampleTree_def emptyTree_def)
  from selection_change_expands_ancestors [OF wf_sampleDoc e, of "[]" "[]"]
  obtain t' where h: "handleSelectionChanged sampleDoc sampleTree [2] [] = Some t'"
    and c: "\<forall>k < length (items sampleTree). items t' ! k =
              (if \<exists>a. (a, 2) \<in> (parentRel sampleDoc)\<^sup>+ \<and> nodeMap sampleTree a = Some k
               then expandedItem (items sampleTree ! k) else items sampleTree ! k)"
    and l: "log t' = log (selectEach (setLastClickItem sampleDoc (unselectEach sampleTree []) None) [2])
                    @ (case nodeMap sampleTree 2 of None \<Rightarrow> [] | Some e \<Rightarrow> [ScrollIntoView e])"
    by blast
  have n: "length (items sampleTree) = 6" by (simp add: sampleTree_def)
  have c0: "\<exists>a. (a, 2) \<in> (parentRel sampleDoc)\<^sup>+ \<and> nodeMap sampleTree a = Some 0"
    by (rule exI [of _ 0]) (simp add: ancestors_of_2 sampleTree_def emptyTree_def)
  have c1: "\<exists>a. (a, 2) \<in> (parentRel sampleDoc)\<^sup>+ \<and> nodeMap sampleTree a = Some 1"
    by (rule exI [of _ 1]) (simp add: ancestors_of_2 sampleTree_def emptyTree_def)
  have c4: "\<not> (\<exists>a. (a, 2) \<in> (parentRel sampleDoc)\<^sup>+ \<and> nodeMap sampleTree a = Some 4)"
    by (auto simp: ancestors_of_2 sampleTree_def emptyTree_def)
  have "items t' ! 0 = expandedItem (items sampleTree ! 0)"
    using c [rule_format, of 0] n c0 by simp
  moreover have "items t' ! 1 = expandedItem (items sampleTree ! 1)"
    using c [rule_format, of 1] n c1 by simp
  moreover have "items t' ! 4 = items sampleTree ! 4"
    using c [rule_format, of 4] n c4 by simp
  ultimately have "items t' ! 0 = TreeGroup 0 True" "items t' ! 1 = TreeGroup 1 True"
    "items t' ! 4 = TreeGroup 4 True"
    by (simp_all add: sampleTree_def)
  moreover from l have "log t' = [AddSelectedStyle 2 selected, ScrollIntoView 2]"
    by (simp add: sampleTree_def emptyTree_def setLastClickItem_def styleOf_def)
  ultimately show ?thesis using h by (simp add: sampleTree_def)
qed

text \<open>The walk from a node without an item never returns.\<close>

lemma expandAncestors_stuck:
  assumes "nodeMap t p = None"
  shows "expandAncestors d t (Some p) = None"
proof (cases "expandAncestors d t (Some p)")
  case None
  then show ?thesis .
next
  case (Some t')
  from expandAncestors_Some [OF this] assms show ?thesis by blast
qed

text \<open>
  Claim C9, evaluated on the document with the leaf in front. The constructor's tree has
  no item for the group \<open>2\<close>, which follows the leaf \<open>1\<close> under the root. The leaf \<open>3\<close> lies in
  that group. On the selection-change event that selects the leaf \<open>3\<close> the handler does not
  return: nothing is scrolled into view, and the walk never gets past the group \<open>2\<close> to
  the root.
\<close>

theorem selection_in_unbuilt_group_never_returns:
  "newTree leafFirstDoc = Some (Inr builtLeafFirst) \<and>
   parent leafFirstDoc 3 = Some 2 \<and> parent leafFirstDoc 2 = Some 0 \<and>
   nodeMap builtLeafFirst 2 = None \<and>
   handleSelectionChanged leafFirstDoc builtLeafFirst [3] [] = None"
proof -
  define s where
    "s = selectEach (setLastClickItem leafFirstDoc (unselectEach builtLeafFirst []) None) [3]"
  have "nodeMap s = nodeMap builtLeafFirst"
    unfolding s_def
    by (simp only: selectEach_fields setLastClickItem_fields unselectEach_fields)
  then have "nodeMap s 2 = None" by (simp add: builtLeafFirst_def emptyTree_def)
  then have "expandAncestors leafFirstDoc s (Some 2) = None" by (rule expandAncestors_stuck)
  moreover have p: "parent leafFirstDoc 3 = Some 2" "parent leafFirstDoc 2 = Some 0"
    by (simp_all add: leafFirstDoc_def)
  moreover have "handleSelectionChanged leafFirstDoc builtLeafFirst [3] [] =
                   scrollToNode leafFirstDoc s [3]"
    by (simp only: handleSelectionChanged_def s_def)
  ultimately have "handleSelectionChanged leafFirstDoc builtLeafFirst [3] [] = None"
    by (simp add: scrollToNode_def)
  moreover have "nodeMap builtLeafFirst 2 = None" by (simp add: builtLeafFirst_def emptyTree_def)
  ultimately show ?thesis using newTree_leafFirstDoc p by simp
qed

subsection \<open>Clicks\<close>

lemma selectCalls_append: "selectCalls (xs @ ys) = selectCalls xs @ selectCalls ys"
  by (simp add: selectCalls_def)

lemma selectCalls_Nil: "selectCalls [] = []"
  by (simp add: selectCalls_def)

lemma selectCalls_Cons:
  "selectCalls (e # es) = (if isSelect e then e # selectCalls es else selectCalls es)"
  by (simp add: selectCalls_def)

lemma selectCalls_styleOf:
  "selectCalls (styleOf t n (\<lambda>el. AddSelectedStyle el s)) = []"
  "selectCalls (styleOf t n (\<lambda>el. RemoveSelectedStyle el s)) = []"
  by (simp_all add: selectCalls_def styleOf_def split: option.splits)

lemma setLastClickItem_selectCalls:
  "selectCalls (log (setLastClickItem d t i)) = selectCalls (log t)"
  by (simp add: setLastClickItem_def Let_def selectCalls_append selectCalls_styleOf
        split: option.splits)

lemma setLastClickItem_lastClicked: "lastClicked (setLastClickItem d t i) = i"
  by (simp add: setLastClickItem_def Let_def split: option.splits)

text \<open>
  Claim C8, amended. For a click on the item of node \<open>n\<close>, the handler makes these calls
  of the selection manager and no other: without Shift, \<open>select([n], ctrlKey)\<close>, so a plain
  click selects \<open>n\<close> alone and a Ctrl-click toggles it; with Shift and an anchor,
  \<open>select(getNodesBetween(anchor, n), false)\<close>; with Shift and no anchor, none. Afterwards
  \<open>n\<close> is the anchor. The Cmd key is not read: the result is the same with and without it.
\<close>

theorem click_selection_calls:
  "targetNode ev = Some n \<longrightarrow>
     selectCalls (log (onClick d t ev)) =
       selectCalls (log t) @
       (if shiftKey ev
        then (case lastClicked t of
                None \<Rightarrow> []
              | Some anchor \<Rightarrow> [Select (getNodesBetween d anchor n) False])
        else [Select [n] (ctrlKey ev)]) \<and>
     lastClicked (onClick d t ev) = Some n \<and>
     onClick d t (ev\<lparr> metaKey := b \<rparr>) = onClick d t ev"
  by (simp add: onClick_def Let_def setLastClickItem_selectCalls setLastClickItem_lastClicked
        selectCalls_append selectCalls_Nil selectCalls_Cons split: option.splits)

text \<open>
  Claim C8, amended, on the sample document: a plain click, a click with Ctrl, with
  Shift and no anchor, and with Shift and the anchor \<open>2\<close>.
\<close>

theorem click_selection_calls_witness:
  "selectCalls (log (onClick sampleDoc sampleTree (pointerAt 2))) = [Select [2] False] \<and>
   selectCalls (log (onClick sampleDoc sampleTree ((pointerAt 2)\<lparr> ctrlKey := True \<rparr>))) =
     [Select [2] True] \<and>
   selectCalls (log (onClick sampleDoc sampleTree ((pointerAt 2)\<lparr> shiftKey := True \<rparr>))) = [] \<and>
   selectCalls (log (onClick sampleDoc (sampleTree\<lparr> lastClicked := Some 2 \<rparr>)
                       ((pointerAt 5)\<lparr> shiftKey := True \<rparr>))) = [Select [2, 3, 4, 5] False]"
  using click_selection_calls [of "pointerAt 2" 2 sampleDoc sampleTree True]
        click_selection_calls [of "(pointerAt 2)\<lparr> ctrlKey := True \<rparr>" 2 sampleDoc sampleTree True]
        click_selection_calls [of "(pointerAt 2)\<lparr> shiftKey := True \<rparr>" 2 sampleDoc sampleTree True]
        click_selection_calls [of "(pointerAt 5)\<lparr> shiftKey := True \<rparr>" 5 sampleDoc
                                  "sampleTree\<lparr> lastClicked := Some 2 \<rparr>" True]
  by (simp add: pointerAt_def sampleTree_def emptyTree_def sampleDoc_def selectCalls_Nil)

text \<open>
  Claim C8 fails as stated for the Cmd key. A click with Cmd held and Ctrl not held calls
  \<open>select([2], false)\<close>: the selection is replaced, not added to.
\<close>

theorem cmd_click_is_a_plain_click:
  "log (onClick sampleDoc sampleTree ((pointerAt 2)\<lparr> metaKey := True \<rparr>))
     = [StopPropagation, Select [2] False, AddSelectedStyle 2 current]"
  by (simp add: onClick_def setLastClickItem_def styleOf_def pointerAt_def sampleTree_def
        emptyTree_def sampleDoc_def Let_def)

subsection \<open>Drag and drop\<close>

lemma draggingIncludes_dragSet: "draggingIncludes t n \<longleftrightarrow> n \<in> dragSet t"
  by (simp add: draggingIncludes_def dragSet_def split: option.splits)

lemma canDropAncestors_wf:
  assumes "wf (parentRel d)"
  shows "canDropAncestors d t (Some p) = Some (\<not> (\<exists>a \<in> dragSet t. (a, p) \<in> (parentRel d)\<^sup>*))"
  using assms
proof (induction p rule: wf_induct_rule)
  case (less p)
  show ?case
  proof (cases "parent d p")
    case None
    then show ?thesis
      by (subst canDropAncestors.simps, subst ancestorOrSelf_unfold)
         (auto simp: draggingIncludes_dragSet canDropAncestors.simps)
  next
    case (Some q)
    then have "(q, p) \<in> parentRel d" by (simp add: parentRel_iff)
    then have ih: "canDropAncestors d t (Some q) = Some (\<not> (\<exists>a \<in> dragSet t. (a, q) \<in> (parentRel d)\<^sup>*))"
      by (rule less.IH)
    show ?thesis
      by (subst canDropAncestors.simps, subst ancestorOrSelf_unfold)
         (auto simp: draggingIncludes_dragSet ih Some)
  qed
qed

text \<open>
  Claim C7. On an acyclic graph, for every drag set and every node \<open>n\<close> the event's target
  lies in, \<open>canDrop\<close> returns, and it returns false exactly when \<open>n\<close> is in the drag set or
  some ancestor of \<open>n\<close> is. \<open>onDragOver\<close> then leaves the event alone (no drop affordance);
  for a valid target it prevents the default and sets the drop effect "move". So with a
  node \<open>P\<close> in the drag set every descendant of \<open>P\<close> is rejected, and a node that is neither in
  the drag set nor below a node of it is accepted.
\<close>

theorem drop_target_validity:
  assumes "wf (parentRel d)" and "targetNode ev = Some n"
  shows "canDrop d t ev =
           Some (\<not> (n \<in> dragSet t \<or> (\<exists>a \<in> dragSet t. (a, n) \<in> (parentRel d)\<^sup>+))) \<and>
         onDragOver d t ev =
           Some (if n \<in> dragSet t \<or> (\<exists>a \<in> dragSet t. (a, n) \<in> (parentRel d)\<^sup>+) then t
                 else t\<lparr> log := log t @ [PreventDefault, SetDropEffect ''move''] \<rparr>)"
proof -
  have c: "canDrop d t ev =
           Some (\<not> (n \<in> dragSet t \<or> (\<exists>a \<in> dragSet t. (a, n) \<in> (parentRel d)\<^sup>+)))"
  proof (cases "parent d n")
    case None
    then show ?thesis using assms(2)
      by (simp add: canDrop_def draggingIncludes_dragSet canDropAncestors.simps ancestor_unfold)
  next
    case (Some q)
    then show ?thesis using assms(2) canDropAncestors_wf [OF assms(1), of t q]
      by (simp add: canDrop_def draggingIncludes_dragSet ancestor_unfold)
  qed
  then show ?thesis by (simp add: onDragOver_def)
qed

lemma ancestors_of_5: "(a, 5) \<in> (parentRel sampleDoc)\<^sup>+ \<longleftrightarrow> a = 4 \<or> a = 0"
  by (subst ancestor_unfold, simp add: sampleDoc_def,
      subst ancestorOrSelf_unfold, simp add: sampleDoc_def,
      subst ancestorOrSelf_unfold, simp add: sampleDoc_def)

lemma ancestors_of_1: "(a, 1) \<in> (parentRel sampleDoc)\<^sup>+ \<longleftrightarrow> a = 0"
  by (subst ancestor_unfold, simp add: sampleDoc_def,
      subst ancestorOrSelf_unfold, simp add: sampleDoc_def)

text \<open>
  Claim C7 on the sample document, with group \<open>1\<close> as the drag set: its leaf \<open>2\<close> and the
  group itself are rejected, the leaf \<open>5\<close> of the other group is accepted.
\<close>

theorem drop_target_validity_witness:
  "canDrop sampleDoc dragTree (pointerAt 2) = Some False \<and>
   canDrop sampleDoc dragTree (pointerAt 1) = Some False \<and>
   canDrop sampleDoc dragTree (pointerAt 5) = Some True \<and>
   onDragOver sampleDoc dragTree (pointerAt 2) = Some dragTree \<and>
   onDragOver sampleDoc dragTree (pointerAt 5) =
     Some (dragTree\<lparr> log := [PreventDefault, SetDropEffect ''move''] \<rparr>)"
proof -
  have s: "dragSet dragTree = {1}" "log dragTree = []"
    by (simp_all add: dragSet_def dragTree_def sampleTree_def emptyTree_def)
  have t: "targetNode (pointerAt n) = Some n" for n by (simp add: pointerAt_def)
  show ?thesis
    using drop_target_validity [OF wf_sampleDoc t, of dragTree 2]
          drop_target_validity [OF wf_sampleDoc t, of dragTree 1]
          drop_target_validity [OF wf_sampleDoc t, of dragTree 5]
    by (simp add: s ancestors_of_2 ancestors_of_5 ancestors_of_1)
qed

text \<open>
  Claim C3, amended. On drag start the drag set is the selected nodes that have no
  parent or whose parent is not selected, in the order of the selection, followed by the
  node under the pointer when that node is not selected. When nothing is selected, the
  node under the pointer is the whole drag set.
\<close>

theorem drag_start_set:
  "dragging (onDragStart d t ev) =
     Some (filter (\<lambda>n. \<forall>p. parent d n = Some p \<longrightarrow> p \<notin> set (selectedNodes t)) (selectedNodes t)
           @ (case targetNode ev of
                None \<Rightarrow> []
              | Some i \<Rightarrow> if i \<in> set (selectedNodes t) then [] else [i])) \<and>
   (selectedNodes t = [] \<and> targetNode ev = Some i \<longrightarrow> dragging (onDragStart d t ev) = Some [i])"
proof -
  have "(case parent d n of None \<Rightarrow> True | Some p \<Rightarrow> p \<notin> S) \<longleftrightarrow>
        (\<forall>p. parent d n = Some p \<longrightarrow> p \<notin> S)" for n and S :: "inode set"
    by (simp split: option.splits)
  then have f: "findAllCommonParents d (t\<lparr> log := l \<rparr>) =
     filter (\<lambda>n. \<forall>p. parent d n = Some p \<longrightarrow> p \<notin> set (selectedNodes t)) (selectedNodes t)" for l
    by (simp add: findAllCommonParents_def)
  show ?thesis
    by (simp add: onDragStart_def Let_def f split: option.splits)
qed

text \<open>
  Claim C3, amended, on the sample document. With the group \<open>1\<close>, its leaf \<open>2\<close> and the
  leaf \<open>5\<close> selected, the leaf \<open>2\<close> is left out, its parent being selected, and the
  unselected leaf \<open>3\<close> under the pointer is added. With nothing selected the drag set is
  the leaf \<open>3\<close> alone.
\<close>

theorem drag_start_set_witness:
  "dragging (onDragStart sampleDoc pickedTree (pointerAt 3)) = Some [1, 5, 3] \<and>
   dragging (onDragStart sampleDoc pickedTree (pointerAt 2)) = Some [1, 5] \<and>
   dragging (onDragStart sampleDoc sampleTree (pointerAt 3)) = Some [3]"
proof -
  have "selectedNodes sampleTree = [] \<and> targetNode (pointerAt 3) = Some 3"
    by (simp add: sampleTree_def emptyTree_def pointerAt_def)
  then show ?thesis
    using drag_start_set [of sampleDoc pickedTree "pointerAt 3" 3]
          drag_start_set [of sampleDoc pickedTree "pointerAt 2" 2]
          drag_start_set [of sampleDoc sampleTree "pointerAt 3" 3]
    by (simp add: pickedTree_def sampleTree_def emptyTree_def pointerAt_def sampleDoc_def)
qed

text \<open>
  Claim C3 fails as stated in its second half: the leaf \<open>3\<close> under the pointer is not
  selected, and the drag set is not that leaf alone.
\<close>

theorem unselected_pointer_node_joins_selection:
  "3 \<notin> set (selectedNodes pickedTree) \<and>
   dragging (onDragStart sampleDoc pickedTree (pointerAt 3)) \<noteq> Some [3]"
  by (simp add: onDragStart_def findAllCommonParents_def pickedTree_def sampleTree_def
        emptyTree_def pointerAt_def sampleDoc_def)

text \<open>Every call of the loop carries the new parent and the anchor it was given.\<close>

lemma moveEach_arguments:
  "moveEach mv d np tg xs = Inr (d', calls) \<Longrightarrow>
     list_all (\<lambda>c. \<exists>p x. c = Move p x np tg \<and> x \<in> set xs) calls"
proof (induction xs arbitrary: d calls)
  case Nil
  then show ?case by simp
next
  case (Cons x xs)
  show ?case
  proof (cases "parent d x")
    case None
    with Cons.prems have "moveEach mv d np tg xs = Inr (d', calls)" by simp
    from Cons.IH [OF this] show ?thesis by (auto simp: list_all_iff)
  next
    case (Some p)
    with Cons.prems obtain d1 rest where
      r: "moveEach mv d1 np tg xs = Inr (d', rest)" and c: "calls = Move p x np tg # rest"
      by (auto split: sum.splits)
    from Cons.IH [OF r] c show ?thesis by (auto simp: list_all_iff)
  qed
qed

text \<open>
  When a move changes no parent but the moved node's, the calls are those of the drag
  nodes that have a parent when the drop begins, in the order of the drag set.
\<close>

lemma moveEach_calls:
  assumes "keepsOtherParents mv"
  shows "distinct xs \<Longrightarrow> moveEach mv d np tg xs = Inr (d', calls) \<Longrightarrow>
     calls = concat (map (\<lambda>x. case parent d x of None \<Rightarrow> [] | Some p \<Rightarrow> [Move p x np tg]) xs)"
proof (induction xs arbitrary: d calls)
  case Nil
  then show ?case by simp
next
  case (Cons x xs)
  from Cons.prems(1) have dx: "distinct xs" and nx: "x \<notin> set xs" by simp_all
  show ?case
  proof (cases "parent d x")
    case None
    with Cons.prems have "moveEach mv d np tg xs = Inr (d', calls)" by simp
    from Cons.IH [OF dx this] None show ?thesis by simp
  next
    case (Some p)
    with Cons.prems obtain d1 rest where m: "mv d p x np tg = Inr d1"
      and r: "moveEach mv d1 np tg xs = Inr (d', rest)" and c: "calls = Move p x np tg # rest"
      by (auto split: sum.splits)
    have same: "parent d1 y = parent d y" if "y \<in> set xs" for y
    proof -
      from that nx have "y \<noteq> x" by auto
      with m have "mv d p x np tg = Inr d1 \<and> y \<noteq> x" by simp
      with assms show ?thesis unfolding keepsOtherParents_def by meson
    qed
    have "rest = concat (map (\<lambda>x. case parent d1 x of None \<Rightarrow> [] | Some p \<Rightarrow> [Move p x np tg]) xs)"
      by (rule Cons.IH [OF dx r])
    also have "\<dots> = concat (map (\<lambda>x. case parent d x of None \<Rightarrow> [] | Some p \<Rightarrow> [Move p x np tg]) xs)"
      using same by (simp cong: map_cong)
    finally show ?thesis using c Some by simp
  qed
qed

lemma moveEach_runCalls:
  "moveEach mv d np tg xs = Inr (d', calls) \<Longrightarrow> runCalls mv d calls = Inr d'"
proof (induction xs arbitrary: d calls)
  case Nil
  then show ?case by simp
next
  case (Cons x xs)
  show ?case
  proof (cases "parent d x")
    case None
    with Cons.prems have "moveEach mv d np tg xs = Inr (d', calls)" by simp
    then show ?thesis by (rule Cons.IH)
  next
    case (Some p)
    with Cons.prems obtain d1 rest where m: "mv d p x np tg = Inr d1"
      and r: "moveEach mv d1 np tg xs = Inr (d', rest)" and c: "calls = Move p x np tg # rest"
      by (auto split: sum.splits)
    from Cons.IH [OF r] m c show ?thesis by simp
  qed
qed

text \<open>
  Claim C6 fails as stated when a move fails. The group \<open>1\<close> is the drag set and is dropped
  onto its own item; the move is refused. The handler ends with that failure, and the
  drag set is still the group \<open>1\<close>: the line that clears it is not reached.
\<close>

theorem failed_drop_keeps_drag_set:
  "onDrop reparent sampleDoc dragTree (pointerAt 1) =
     Inl (MoveFailed, sampleDoc, dragTree\<lparr> log := [PreventDefault, StopPropagation] \<rparr>) \<and>
   dragging (dragTree\<lparr> log := [PreventDefault, StopPropagation] \<rparr>) = Some [1]"
  by (simp add: onDrop_def excute_def reparent_def pointerAt_def dragTree_def sampleTree_def
        emptyTree_def sampleDoc_def Let_def)

text \<open>
  Claim C6, amended. When the drop's target lies in the item of node \<open>n\<close> and the handler
  returns (no move fails), the drag set is cleared and the handler has added exactly one
  transaction, "move node", which holds all the moves; the document it returns is the
  document after those moves, carried out in order. Every move is of a node of the drag
  set, to the new parent \<open>n\<close> with no anchor when \<open>n\<close> is a linked-list node, and to the
  parent of \<open>n\<close> with the anchor \<open>n\<close> when it is not. If moving a node changes no other
  node's parent and the drag set has no repetition, the moves are those of the drag nodes
  that have a parent, one each, in the order of the drag set (a node without a parent
  has no \<open>move\<close> to call). When a move fails, the handler ends with that failure, the
  document is as before the drop, and the drag set is left as it was. When the target
  lies in no tree item, the handler returns with no transaction and the drag set as it
  was.
\<close>

theorem drop_is_one_transaction:
  "(targetNode ev = Some n \<and> onDrop mv d t ev = Inr (d', t') \<longrightarrow>
      dragging t' = None \<and>
      (\<exists>calls. log t' = log t @ [PreventDefault, StopPropagation, Excute ''move node'' calls] \<and>
         runCalls mv d calls = Inr d' \<and>
         list_all (\<lambda>c. \<exists>p x. c = Move p x (if isLinkedListNode d n then Some n else parent d n)
                                        (if isLinkedListNode d n then None else Some n)
                          \<and> x \<in> dragSet t) calls \<and>
         (keepsOtherParents mv \<and> (\<forall>xs. dragging t = Some xs \<longrightarrow> distinct xs) \<longrightarrow>
            calls = concat (map (\<lambda>x. case parent d x of
                                        None \<Rightarrow> []
                                      | Some p \<Rightarrow>
                                          [Move p x (if isLinkedListNode d n then Some n else parent d n)
                                                    (if isLinkedListNode d n then None else Some n)])
                              (case dragging t of None \<Rightarrow> [] | Some xs \<Rightarrow> xs))))) \<and>
   (onDrop mv d t ev = Inl (e, d1, t1) \<longrightarrow>
      d1 = d \<and> t1 = t\<lparr> log := log t @ [PreventDefault, StopPropagation] \<rparr> \<and>
      dragging t1 = dragging t) \<and>
   (targetNode ev = None \<longrightarrow>
      onDrop mv d t ev = Inr (d, t\<lparr> log := log t @ [PreventDefault, StopPropagation] \<rparr>))"
proof (intro conjI impI)
  assume "targetNode ev = None"
  then show "onDrop mv d t ev = Inr (d, t\<lparr> log := log t @ [PreventDefault, StopPropagation] \<rparr>)"
    by (simp add: onDrop_def)
next
  assume f: "onDrop mv d t ev = Inl (e, d1, t1)"
  then have "d1 = d \<and> t1 = t\<lparr> log := log t @ [PreventDefault, StopPropagation] \<rparr>"
    by (auto simp: onDrop_def excute_def Let_def split: option.splits sum.splits)
  then show "d1 = d" and "t1 = t\<lparr> log := log t @ [PreventDefault, StopPropagation] \<rparr>"
    and "dragging t1 = dragging t"
    by simp_all
next
  assume h: "targetNode ev = Some n \<and> onDrop mv d t ev = Inr (d', t')"
  define np where "np = (if isLinkedListNode d n then Some n else parent d n)"
  define tg where "tg = (if isLinkedListNode d n then None else Some n)"
  define xs where "xs = (case dragging t of None \<Rightarrow> [] | Some xs \<Rightarrow> xs)"
  from h obtain calls where
    m: "moveEach mv d np tg xs = Inr (d', calls)"
    and t': "t' = t\<lparr> log := log t @ [PreventDefault, StopPropagation] @ [Excute ''move node'' calls],
                     dragging := None \<rparr>"
    by (auto simp: onDrop_def excute_def Let_def np_def tg_def xs_def split: sum.splits)
  have s: "set xs = dragSet t" by (simp add: xs_def dragSet_def split: option.splits)
  have a: "list_all (\<lambda>c. \<exists>p x. c = Move p x np tg \<and> x \<in> dragSet t) calls"
    using moveEach_arguments [OF m] by (simp add: s)
  have r: "runCalls mv d calls = Inr d'" using m by (rule moveEach_runCalls)
  have c: "calls = concat (map (\<lambda>x. case parent d x of None \<Rightarrow> [] | Some p \<Rightarrow> [Move p x np tg]) xs)"
    if "keepsOtherParents mv \<and> (\<forall>xs. dragging t = Some xs \<longrightarrow> distinct xs)"
  proof -
    from that have "distinct xs" by (simp add: xs_def split: option.splits)
    with that show ?thesis using moveEach_calls [OF _ _ m] by blast
  qed
  show "dragging t' = None" by (simp add: t')
  show "\<exists>calls. log t' = log t @ [PreventDefault, StopPropagation, Excute ''move node'' calls] \<and>
         runCalls mv d calls = Inr d' \<and>
         list_all (\<lambda>c. \<exists>p x. c = Move p x (if isLinkedListNode d n then Some n else parent d n)
                                        (if isLinkedListNode d n then None else Some n)
                          \<and> x \<in> dragSet t) calls \<and>
         (keepsOtherParents mv \<and> (\<forall>xs. dragging t = Some xs \<longrightarrow> distinct xs) \<longrightarrow>
            calls = concat (map (\<lambda>x. case parent d x of
                                        None \<Rightarrow> []
                                      | Some p \<Rightarrow>
                                          [Move p x (if isLinkedListNode d n then Some n else parent d n)
                                                    (if isLinkedListNode d n then None else Some n)])
                              (case dragging t of None \<Rightarrow> [] | Some xs \<Rightarrow> xs)))"
    unfolding np_def [symmetric] tg_def [symmetric] xs_def [symmetric]
    using t' a r c by auto
qed

lemma keepsOtherParents_reparent: "keepsOtherParents reparent"
  by (auto simp: keepsOtherParents_def reparent_def split: if_splits)

text \<open>
  Claim C6, amended, on the sample document. The leaves \<open>2\<close> and \<open>3\<close> are dropped onto the
  group \<open>4\<close>, and onto the leaf \<open>5\<close> in that group: one transaction each, the leaves have
  the new parent \<open>4\<close> afterwards and the drag set is cleared. The group \<open>1\<close> dropped onto
  itself fails and stays the drag set.
\<close>

theorem drop_is_one_transaction_witness:
  "(\<exists>d' t'. onDrop reparent sampleDoc carryTree (pointerAt 4) = Inr (d', t') \<and>
      dragging t' = None \<and> parent d' 2 = Some 4 \<and> parent d' 3 = Some 4 \<and>
      log t' = [PreventDefault, StopPropagation,
                Excute ''move node'' [Move 1 2 (Some 4) None, Move 1 3 (Some 4) None]]) \<and>
   (\<exists>d' t'. onDrop reparent sampleDoc carryTree (pointerAt 5) = Inr (d', t') \<and>
      dragging t' = None \<and> parent d' 2 = Some 4 \<and> parent d' 3 = Some 4 \<and>
      log t' = [PreventDefault, StopPropagation,
                Excute ''move node'' [Move 1 2 (Some 4) (Some 5), Move 1 3 (Some 4) (Some 5)]]) \<and>
   (\<exists>t1. onDrop reparent sampleDoc dragTree (pointerAt 1) = Inl (MoveFailed, sampleDoc, t1) \<and>
      dragging t1 = Some [1])"
proof -
  have k: "keepsOtherParents reparent \<and> (\<forall>xs. dragging carryTree = Some xs \<longrightarrow> distinct xs)"
    by (auto simp: keepsOtherParents_reparent carryTree_def)
  have t: "targetNode (pointerAt n) = Some n" for n by (simp add: pointerAt_def)
  have l: "log carryTree = []" "dragging carryTree = Some [2, 3]" "dragging dragTree = Some [1]"
    by (simp_all add: carryTree_def dragTree_def sampleTree_def emptyTree_def)
  have "\<exists>r. onDrop reparent sampleDoc carryTree (pointerAt 4) = Inr r"
    by (simp add: onDrop_def excute_def reparent_def pointerAt_def l sampleDoc_def Let_def)
  then obtain d4 t4 where h4: "onDrop reparent sampleDoc carryTree (pointerAt 4) = Inr (d4, t4)"
    by auto
  have "\<exists>r. onDrop reparent sampleDoc carryTree (pointerAt 5) = Inr r"
    by (simp add: onDrop_def excute_def reparent_def pointerAt_def l sampleDoc_def Let_def)
  then obtain d5 t5 where h5: "onDrop reparent sampleDoc carryTree (pointerAt 5) = Inr (d5, t5)"
    by auto
  have "\<exists>t1. onDrop reparent sampleDoc dragTree (pointerAt 1) = Inl (MoveFailed, sampleDoc, t1)"
    by (simp add: onDrop_def excute_def reparent_def pointerAt_def l sampleDoc_def Let_def)
  then obtain t1 where h1: "onDrop reparent sampleDoc dragTree (pointerAt 1) =
                              Inl (MoveFailed, sampleDoc, t1)"
    by auto
  from drop_is_one_transaction [of "pointerAt 4" 4 reparent sampleDoc carryTree d4 t4] t h4 k
  obtain c4 where "dragging t4 = None" and
    "log t4 = [PreventDefault, StopPropagation, Excute ''move node'' c4]" and
    "runCalls reparent sampleDoc c4 = Inr d4" and
    "c4 = [Move 1 2 (Some 4) None, Move 1 3 (Some 4) None]"
    by (auto simp: l sampleDoc_def)
  then have r4: "dragging t4 = None \<and> parent d4 2 = Some 4 \<and> parent d4 3 = Some 4 \<and>
      log t4 = [PreventDefault, StopPropagation,
                Excute ''move node'' [Move 1 2 (Some 4) None, Move 1 3 (Some 4) None]]"
    by (auto simp: reparent_def)
  from drop_is_one_transaction [of "pointerAt 5" 5 reparent sampleDoc carryTree d5 t5] t h5 k
  obtain c5 where "dragging t5 = None" and
    "log t5 = [PreventDefault, StopPropagation, Excute ''move node'' c5]" and
    "runCalls reparent sampleDoc c5 = Inr d5" and
    "c5 = [Move 1 2 (Some 4) (Some 5), Move 1 3 (Some 4) (Some 5)]"
    by (auto simp: l sampleDoc_def)
  then have r5: "dragging t5 = None \<and> parent d5 2 = Some 4 \<and> parent d5 3 = Some 4 \<and>
      log t5 = [PreventDefault, StopPropagation,
                Excute ''move node'' [Move 1 2 (Some 4) (Some 5), Move 1 3 (Some 4) (Some 5)]]"
    by (auto simp: reparent_def)
  from drop_is_one_transaction
         [of "pointerAt 1" 1 reparent sampleDoc dragTree sampleDoc dragTree MoveFailed sampleDoc t1]
       h1 l
  have r1: "dragging t1 = Some [1]" by simp
  show ?thesis using h4 r4 h5 r5 h1 r1 by blast
qed

end
